theory Spec2Isabelle
  imports Main "HOL-Library.Char_ord" "HOL-Library.List_Lexorder" "HOL-Library.Product_Lexorder"
    "HOL-Library.Multiset"
begin

section \<open>LabelNormalizer: the cleaning comprehension of both tracks\<close>

text \<open>
  Both \<open>findYBasalHaplogroups\<close> and \<open>findMTBasalHaplogroups\<close> clean every raw
  classification string with
  \<^verbatim>\<open>haplo.split(";")[0].split("-")[0].split("(")[0].replace('~', "").replace('*', "")\<close>.
  \<open>s.split(c)[0]\<close> is the part of \<open>s\<close> before the first \<open>c\<close> (all of \<open>s\<close> when
  \<open>c\<close> does not occur); \<open>s.replace(c, "")\<close> deletes every \<open>c\<close>.
\<close>

definition split_first :: "char \<Rightarrow> string \<Rightarrow> string" where
  "split_first c s = takeWhile (\<lambda>x. x \<noteq> c) s"

definition replace_empty :: "char \<Rightarrow> string \<Rightarrow> string" where
  "replace_empty c s = filter (\<lambda>x. x \<noteq> c) s"

definition clean_haplo :: "string \<Rightarrow> string" where
  "clean_haplo haplo =
     replace_empty (CHR ''*'') (replace_empty (CHR ''~'')
       (split_first (CHR ''('') (split_first (CHR ''-'') (split_first (CHR '';'') haplo))))"

text \<open>
  A \<open>char\<close> stands for a code point below 256; text with code points beyond that is
  outside this model. Python's \<open>str.isspace\<close> on these code points: space, tab, line
  feed, vertical tab, form feed, carriage return, the four separators 0x1C..0x1F, the
  next-line control 0x85 and the no-break space 0xA0.
\<close>

definition is_space :: "char \<Rightarrow> bool" where
  "is_space c = (c = CHR '' '' \<or> ((9::nat) \<le> of_char c \<and> of_char c \<le> (13::nat))
                 \<or> ((28::nat) \<le> of_char c \<and> of_char c \<le> (31::nat))
                 \<or> of_char c = (133::nat) \<or> of_char c = (160::nat))"

section \<open>IterativeResolver\<close>

text \<open>
  A dictionary is given by its \<open>items()\<close> list in insertion order; \<open>k in d\<close> and \<open>d[k]\<close>
  are \<open>map_of\<close>. The reversed dictionary \<open>{v: k for k, v in d.items()}\<close> keeps, for a value
  that occurs several times, the key of its last item.
\<close>

type_synonym dict = "(string \<times> string) list"

definition invert_dict :: "dict \<Rightarrow> dict" where
  "invert_dict d = rev (map (\<lambda>(k, v). (v, k)) d)"

text \<open>The body of the \<open>for\<close> loop of \<open>findYBasalHaplogroups\<close> for one entry: the value
  written back to \<open>y_haplo_data[index]\<close> (the entry itself when no branch assigns).\<close>

definition y_update :: "dict \<Rightarrow> dict \<Rightarrow> dict \<Rightarrow> string \<Rightarrow> string" where
  "y_update y_basal_dict y_snp_dict_inv y_locus_dict haplo =
     (if length haplo > 1 then
        (if (case map_of y_basal_dict haplo of
               Some p \<Rightarrow> p \<noteq> ''#'' \<and> p \<noteq> ''Root'' | None \<Rightarrow> False)
         then the (map_of y_basal_dict haplo)
         else (case map_of y_snp_dict_inv haplo of
                 Some k \<Rightarrow> k
               | None \<Rightarrow> (case map_of y_locus_dict haplo of
                             Some v \<Rightarrow> v
                           | None \<Rightarrow> ''n/a'')))
      else haplo)"

text \<open>The same for \<open>findMTBasalHaplogroups\<close>, which has no locus dictionary.\<close>

definition mt_update :: "dict \<Rightarrow> dict \<Rightarrow> string \<Rightarrow> string" where
  "mt_update mt_basal_dict mutant_dict_inv haplo =
     (if length haplo > 1 then
        (if (case map_of mt_basal_dict haplo of
               Some p \<Rightarrow> p \<noteq> ''#'' \<and> p \<noteq> ''Root'' | None \<Rightarrow> False)
         then the (map_of mt_basal_dict haplo)
         else (case map_of mutant_dict_inv haplo of
                 Some k \<Rightarrow> k
               | None \<Rightarrow> ''n/a''))
      else haplo)"

text \<open>One round: \<open>for index, haplo in enumerate(data): data[index] = ...\<close>, an in-place
  sweep over the indices of the list.\<close>

definition sweep :: "(string \<Rightarrow> string) \<Rightarrow> string list \<Rightarrow> string list" where
  "sweep upd data = foldl (\<lambda>d index. d[index := upd (d ! index)]) data [0..<length data]"

text \<open>The loop condition
  \<^verbatim>\<open>any(len(item) > 1 and item != 'n/a(Female)' for item in data)\<close>.\<close>

definition unresolved_left :: "string list \<Rightarrow> bool" where
  "unresolved_left data = list_ex (\<lambda>item. length item > 1 \<and> item \<noteq> ''n/a(Female)'') data"

text \<open>
  \<^verbatim>\<open>loop = 0
  while any(...) and loop < 50:
      loop += 1
      <sweep>\<close>
  The result is the list and the counter when the loop is left; the counter is the number
  of rounds that ran.
\<close>

function resolve_loop ::
  "(string \<Rightarrow> string) \<Rightarrow> string list \<Rightarrow> nat \<Rightarrow> string list \<times> nat" where
  "resolve_loop upd data loop =
     (if unresolved_left data \<and> loop < 50
      then resolve_loop upd (sweep upd data) (loop + 1)
      else (data, loop))"
  by pat_completeness auto
termination
  by (relation "measure (\<lambda>(upd, data, loop). 50 - loop)") auto

declare resolve_loop.simps [simp del]

definition y_resolve :: "dict \<Rightarrow> dict \<Rightarrow> dict \<Rightarrow> string list \<Rightarrow> string list \<times> nat" where
  "y_resolve y_basal_dict y_snp_dict y_locus_dict raw =
     resolve_loop (y_update y_basal_dict (invert_dict y_snp_dict) y_locus_dict)
       (map clean_haplo raw) 0"

definition mt_resolve :: "dict \<Rightarrow> dict \<Rightarrow> string list \<Rightarrow> string list \<times> nat" where
  "mt_resolve mt_basal_dict mutant_dict raw =
     resolve_loop (mt_update mt_basal_dict (invert_dict mutant_dict)) (map clean_haplo raw) 0"

section \<open>BasalEncoder: \<open>createDummyVariables\<close>\<close>

text \<open>
  The annotation table, as far as the resolver and the encoder touch it: the two
  classification columns (\<open>open_data\<close> drops the rows where either is missing, so every
  entry is a string) and the column \<open>Updated mtDNA haplogroup\<close> that
  \<open>findMTBasalHaplogroups\<close> adds. \<open>open_data\<close> returns the same table object twice
  (\<open>y_df = df; mt_df = df\<close>), so one record stands for both.
\<close>

record anno_table =
  y_haplogroup :: "string list"
  mt_haplogroup :: "string list"
  updated_mt_haplogroup :: "string list option"

text \<open>\<open>findYBasalHaplogroups\<close> writes the list back to the Y column at the end of every
  round, inside the \<open>while\<close> loop: when no round runs the column keeps the raw strings.\<close>

definition findYBasalHaplogroups :: "anno_table \<Rightarrow> dict \<Rightarrow> dict \<Rightarrow> dict \<Rightarrow> anno_table" where
  "findYBasalHaplogroups y_df y_snp_dict y_basal_dict y_locus_dict =
     (case y_resolve y_basal_dict y_snp_dict y_locus_dict (y_haplogroup y_df) of
        (y_haplo_data, loop) \<Rightarrow>
          if loop = 0 then y_df else y_df\<lparr>y_haplogroup := y_haplo_data\<rparr>)"

text \<open>\<open>findMTBasalHaplogroups\<close> stores the list in the new column after the loop.\<close>

definition findMTBasalHaplogroups :: "anno_table \<Rightarrow> dict \<Rightarrow> dict \<Rightarrow> anno_table" where
  "findMTBasalHaplogroups mt_df mutant_dict mt_basal_dict =
     mt_df\<lparr>updated_mt_haplogroup :=
       Some (fst (mt_resolve mt_basal_dict mutant_dict (mt_haplogroup mt_df)))\<rparr>"

text \<open>The exceptions that the modelled functions can raise.\<close>

datatype py_error = IndexError | KeyError | ValueError

text \<open>\<open>s.startswith(p)\<close>, \<open>p in s\<close> (what \<open>filter(like=p)\<close> tests on a column name) and
  \<open>c.isalpha()\<close> on the code points below 256: the ASCII letters, the ordinal indicators
  0xAA and 0xBA, the micro sign 0xB5 and the Latin-1 letters 0xC0..0xFF without the
  multiplication sign 0xD7 and the division sign 0xF7.\<close>

definition startswith :: "string \<Rightarrow> string \<Rightarrow> bool" where
  "startswith p s = (take (length p) s = p)"

fun contains_str :: "string \<Rightarrow> string \<Rightarrow> bool" where
  "contains_str p [] = (p = [])"
| "contains_str p (c # s) = (startswith p (c # s) \<or> contains_str p s)"

definition isalpha :: "char \<Rightarrow> bool" where
  "isalpha c =
     (((65::nat) \<le> of_char c \<and> of_char c \<le> (90::nat))
      \<or> ((97::nat) \<le> of_char c \<and> of_char c \<le> (122::nat))
      \<or> of_char c = (170::nat) \<or> of_char c = (181::nat) \<or> of_char c = (186::nat)
      \<or> ((192::nat) \<le> of_char c \<and> of_char c \<le> (214::nat))
      \<or> ((216::nat) \<le> of_char c \<and> of_char c \<le> (246::nat))
      \<or> ((248::nat) \<le> of_char c \<and> of_char c \<le> (255::nat)))"

text \<open>
  A row of a numeric table is the list of its cells, each under its column name, in
  column order; a table is the list of its rows. \<open>pd.get_dummies\<close> of a column of strings
  has one column per distinct value, in sorted order, and in every row a 1 under the
  row's own value and 0 elsewhere.
\<close>

type_synonym num_row = "(string \<times> int) list"

definition dummy_columns :: "string list \<Rightarrow> string list" where
  "dummy_columns series = sort (remdups series)"

definition dummy_row :: "string list \<Rightarrow> string \<Rightarrow> num_row" where
  "dummy_row columns key = map (\<lambda>col. (col, if key = col then 1 else 0)) columns"

definition get_dummies :: "string list \<Rightarrow> num_row list" where
  "get_dummies series = map (dummy_row (dummy_columns series)) series"

text \<open>\<^verbatim>\<open>[col for col in columns if not col.startswith('n') and col[0].isalpha()]\<close>:
  on the empty column name \<open>col[0]\<close> raises.\<close>

fun cols_to_keep :: "string list \<Rightarrow> py_error + string list" where
  "cols_to_keep [] = Inr []"
| "cols_to_keep (col # cols) =
     (if startswith ''n'' col then cols_to_keep cols
      else (case col of
              [] \<Rightarrow> Inl IndexError
            | c # _ \<Rightarrow> (case cols_to_keep cols of
                          Inl e \<Rightarrow> Inl e
                        | Inr keep \<Rightarrow> Inr (if isalpha c then col # keep else keep))))"

text \<open>\<open>set(col[0] for col in columns)\<close>, listed in order of first occurrence (the kept
  column names are not empty).\<close>

definition starting_letters :: "string list \<Rightarrow> char list" where
  "starting_letters columns = remdups (concat (map (take 1) columns))"

text \<open>\<open>df[name] = value\<close> on one row: overwrite an existing column in place, else append.\<close>

definition assign_col :: "string \<Rightarrow> int \<Rightarrow> num_row \<Rightarrow> num_row" where
  "assign_col name v row =
     (if name \<in> fst ` set row
      then map (\<lambda>(col, x). if col = name then (col, v) else (col, x)) row
      else row @ [(name, v)])"

text \<open>
  \<^verbatim>\<open>for letter in letters:
      cols_to_sum = [col for col in dummies.columns if col.startswith(letter)]
      dummies[f'{letter}<suffix>'] = dummies[cols_to_sum].sum(axis=1)\<close>
  The columns are read again in every iteration, sum columns added before included.
\<close>

fun add_letter_sums :: "string \<Rightarrow> char list \<Rightarrow> num_row \<Rightarrow> num_row" where
  "add_letter_sums suffix [] row = row"
| "add_letter_sums suffix (letter # letters) row =
     add_letter_sums suffix letters
       (assign_col (letter # suffix)
          (sum_list (map snd (filter (\<lambda>(col, x). startswith [letter] col) row))) row)"

text \<open>\<^verbatim>\<open>summed = dummies.filter(like='_sum').copy()
  summed[total] = summed.sum(axis=1)\<close>\<close>

definition summed_row :: "string \<Rightarrow> num_row \<Rightarrow> num_row" where
  "summed_row total_name row =
     (let summed = filter (\<lambda>(col, x). contains_str ''_sum'' col) row
      in assign_col total_name (sum_list (map snd summed)) summed)"

text \<open>One track of \<open>createDummyVariables\<close>, from the column of keys to the table that is
  concatenated to the annotation table.\<close>

definition encode_track :: "string \<Rightarrow> string \<Rightarrow> string list \<Rightarrow> py_error + num_row list" where
  "encode_track suffix total_name series =
     (case cols_to_keep (dummy_columns series) of
        Inl e \<Rightarrow> Inl e
      | Inr keep \<Rightarrow>
          Inr (map (\<lambda>dummies.
                      summed_row total_name
                        (add_letter_sums suffix (starting_letters keep)
                           (filter (\<lambda>(col, x). col \<in> set keep) dummies)))
                 (get_dummies series)))"

text \<open>
  \<open>createDummyVariables\<close> reads the Y column
  \<open>Y haplogroup (manual curation in ISOGG format)\<close> and the mitochondrial column
  \<open>mtDNA haplogroup if >2x or published\<close>.
\<close>

definition createDummyVariables ::
  "anno_table \<Rightarrow> anno_table \<Rightarrow> py_error + (num_row list \<times> num_row list)" where
  "createDummyVariables y_df mt_df =
     (case encode_track ''_y_sum'' ''y_haplos_sum'' (y_haplogroup y_df) of
        Inl e \<Rightarrow> Inl e
      | Inr y_dummies_summed \<Rightarrow>
          (case encode_track ''_mt_sum'' ''mt_haplos_sum'' (mt_haplogroup mt_df) of
             Inl e \<Rightarrow> Inl e
           | Inr mt_dummies_summed \<Rightarrow> Inr (y_dummies_summed, mt_dummies_summed)))"

text \<open>The test of the comprehension in \<open>cols_to_keep\<close> where it does not raise, and
  the value that the loop of \<open>add_letter_sums\<close> computes for one letter.\<close>

definition retained :: "string \<Rightarrow> bool" where
  "retained col = (\<not> startswith ''n'' col \<and> (case col of [] \<Rightarrow> False | c # _ \<Rightarrow> isalpha c))"

definition letter_sum :: "char \<Rightarrow> num_row \<Rightarrow> int" where
  "letter_sum letter row = sum_list (map snd (filter (\<lambda>(col, x). startswith [letter] col) row))"

section \<open>Binner: \<open>create_bins\<close>\<close>

text \<open>\<open>str(n)\<close> of an integer, as the f-string of the labels prints it.\<close>

function str_digits :: "int \<Rightarrow> string" where
  "str_digits n =
     (if n < 10 then [char_of (48 + n)]
      else str_digits (n div 10) @ [char_of (48 + n mod 10)])"
  by pat_completeness auto
termination
  by (relation "measure nat") auto

declare str_digits.simps [simp del]

definition str_int :: "int \<Rightarrow> string" where
  "str_int n = (if n < 0 then CHR ''-'' # str_digits (- n) else str_digits n)"

text \<open>\<open>range(start, stop, step)\<close> for a positive step (the only use here).\<close>

function py_range :: "int \<Rightarrow> int \<Rightarrow> int \<Rightarrow> int list" where
  "py_range start stop step =
     (if step \<le> 0 \<or> stop \<le> start then []
      else start # py_range (start + step) stop step)"
  by pat_completeness auto
termination
  by (relation "measure (\<lambda>(start, stop, step). nat (stop - start))") auto

declare py_range.simps [simp del]

text \<open>
  \<^verbatim>\<open>bins = list(range(start, end + bin_size, bin_size))
  labels = [f"{i}-{i + bin_size - 1}" for i in range(start, end, bin_size)]\<close>
  with \<open>start = 0\<close> and \<open>end = 120000\<close>.
\<close>

definition bins :: "int \<Rightarrow> int list" where
  "bins bin_size = py_range 0 (120000 + bin_size) bin_size"

definition labels :: "int \<Rightarrow> string list" where
  "labels bin_size =
     map (\<lambda>i. str_int i @ ''-'' @ str_int (i + bin_size - 1)) (py_range 0 120000 bin_size)"

text \<open>\<open>pd.cut(x, bins=edges, labels=names, right=False)\<close> on one value: the name of the
  half-open interval \<open>[lo, hi)\<close> that holds it; a missing value or a value in no interval
  is missing.\<close>

fun cut_value :: "int list \<Rightarrow> string list \<Rightarrow> int \<Rightarrow> string option" where
  "cut_value (lo # hi # edges) (name # names) x =
     (if lo \<le> x \<and> x < hi then Some name else cut_value (hi # edges) names x)"
| "cut_value edges names x = None"

definition pd_cut :: "int list \<Rightarrow> string list \<Rightarrow> int option \<Rightarrow> string option" where
  "pd_cut edges names x = (case x of None \<Rightarrow> None | Some v \<Rightarrow> cut_value edges names v)"

text \<open>
  \<open>astype('str')\<close> on one value of the category column. What it makes of a missing
  category belongs to pandas and is the parameter \<open>na_repr\<close>: the current release keeps
  the value missing (\<open>None\<close>), the releases before 3 print it as the string \<open>nan\<close>
  (\<open>Some ''nan''\<close>).
\<close>

definition astype_str :: "string option \<Rightarrow> string option \<Rightarrow> string option" where
  "astype_str na_repr v = (case v of None \<Rightarrow> na_repr | Some s \<Rightarrow> Some s)"

text \<open>
  \<^verbatim>\<open>df['CombinedBins'] = df['Political Entity'] + " (" + df['DateBins'].astype('str') + "BP)"\<close>
  for one record, from its political entity and its age (\<open>None\<close> is the missing value; a
  missing operand makes the sum missing).
\<close>

definition combined_bin ::
  "string option \<Rightarrow> int \<Rightarrow> string option \<Rightarrow> int option \<Rightarrow> string option" where
  "combined_bin na_repr bin_size political_entity date_mean =
     (case political_entity of
        None \<Rightarrow> None
      | Some entity \<Rightarrow>
          (case astype_str na_repr (pd_cut (bins bin_size) (labels bin_size) date_mean) of
             None \<Rightarrow> None
           | Some label \<Rightarrow> Some (entity @ '' ('' @ label @ ''BP)'')))"

text \<open>\<open>create_bins\<close> on the two columns it reads, giving the column \<open>CombinedBins\<close>; every
  record keeps its row. A step of 0 makes \<open>range\<close> raise, a negative step leaves
  \<open>pd.cut\<close> without bins.\<close>

definition create_bins ::
  "string option \<Rightarrow> (string option \<times> int option) list \<Rightarrow> int
   \<Rightarrow> py_error + string option list" where
  "create_bins na_repr df bin_choice =
     (if bin_choice \<le> 0 then Inl ValueError
      else Inr (map (\<lambda>(political_entity, date_mean).
                       combined_bin na_repr bin_choice political_entity date_mean) df))"

section \<open>Aggregator: \<open>createTable\<close>\<close>

text \<open>
  The merged table that \<open>createTable\<close> receives. A row has the three grouping columns
  (\<open>None\<close> is the missing value) and its cells that are not missing: the cells of the
  \<open>float64\<close> columns, which hold the counts, and the cells of the \<open>object\<close> columns. The
  table lists its other columns with their dtype.
\<close>

datatype dtype = Float64 | Object

datatype cell = Num int | Str string | NA

record 'c obs =
  lat :: "'c option"
  long :: "'c option"
  combined_bins :: "string option"
  num_cells :: "(string \<times> int) list"
  obj_cells :: "(string \<times> string) list"

record 'c table =
  dtypes :: "(string \<times> dtype) list"
  observations :: "'c obs list"

record 'c site_row =
  site_lat :: 'c
  site_long :: 'c
  site_bins :: string
  site_cells :: "(string \<times> cell) list"

record bin_row =
  bin_bins :: string
  bin_cells :: "(string \<times> cell) list"

text \<open>\<open>series.sum()\<close> skips missing values: a missing cell counts 0.\<close>

definition num_value :: "string \<Rightarrow> 'c obs \<Rightarrow> int" where
  "num_value col r = (case map_of (num_cells r) col of Some x \<Rightarrow> x | None \<Rightarrow> 0)"

text \<open>
  \<^verbatim>\<open>def custom_aggregate(series):
      if series.dtype == 'float64' or series.dtype == 'int64':
          return series.sum()
      else:
          return series.dropna().iloc[0] if not series.dropna().empty else None\<close>
\<close>

definition custom_aggregate :: "dtype \<Rightarrow> string \<Rightarrow> 'c obs list \<Rightarrow> cell" where
  "custom_aggregate dt col series =
     (case dt of
        Float64 \<Rightarrow> Num (sum_list (map (num_value col) series))
      | Object \<Rightarrow> (case List.map_filter (\<lambda>r. map_of (obj_cells r) col) series of
                     [] \<Rightarrow> NA
                   | v # _ \<Rightarrow> Str v))"

text \<open>\<open>groupby\<close> drops the rows with a missing value in a grouping column and lists the
  groups in sorted key order.\<close>

definition site_key :: "'c obs \<Rightarrow> ('c \<times> 'c \<times> string) option" where
  "site_key r =
     (case lat r of None \<Rightarrow> None
      | Some la \<Rightarrow> (case long r of None \<Rightarrow> None
          | Some lo \<Rightarrow> (case combined_bins r of None \<Rightarrow> None
              | Some b \<Rightarrow> Some (la, lo, b))))"

definition site_keys :: "('c::linorder) table \<Rightarrow> ('c \<times> 'c \<times> string) list" where
  "site_keys t = sort (remdups (List.map_filter site_key (observations t)))"

definition bin_keys :: "'c table \<Rightarrow> string list" where
  "bin_keys t = sort (remdups (List.map_filter combined_bins (observations t)))"

text \<open>\<^verbatim>\<open>combined_df.groupby(['Lat.', 'Long.', 'CombinedBins']).agg(custom_aggregate).reset_index()\<close>\<close>

definition site_level :: "('c::linorder) table \<Rightarrow> 'c site_row list" where
  "site_level t =
     map (\<lambda>(la, lo, b).
            \<lparr>site_lat = la, site_long = lo, site_bins = b,
             site_cells =
               map (\<lambda>(col, dt).
                      (col, custom_aggregate dt col
                              (filter (\<lambda>r. site_key r = Some (la, lo, b)) (observations t))))
                 (dtypes t)\<rparr>)
       (site_keys t)"

definition endswith :: "string \<Rightarrow> string \<Rightarrow> bool" where
  "endswith p s = (length p \<le> length s \<and> drop (length s - length p) s = p)"

text \<open>The columns of \<open>agg_dict\<close>.\<close>

definition agg_columns :: "'c table \<Rightarrow> (string \<times> dtype) list" where
  "agg_columns t =
     filter (\<lambda>(col, dt). endswith ''_sum'' col \<or> endswith ''y_haplos_sum'' col
                          \<or> endswith ''mt_haplos_sum'' col) (dtypes t)"

text \<open>
  The aggregation \<open>'sum'\<close> of one column over one group. What it makes of an \<open>object\<close>
  column belongs to pandas and is the parameter \<open>object_sum\<close>.
\<close>

definition agg_sum ::
  "(string option list \<Rightarrow> cell) \<Rightarrow> dtype \<Rightarrow> string \<Rightarrow> 'c obs list \<Rightarrow> cell" where
  "agg_sum object_sum dt col series =
     (case dt of
        Float64 \<Rightarrow> Num (sum_list (map (num_value col) series))
      | Object \<Rightarrow> object_sum (map (\<lambda>r. map_of (obj_cells r) col) series))"

text \<open>
  \<open>pd.to_numeric(series, errors='coerce')\<close> on one cell: a number stays, a string that
  parses becomes its number, and invalid parsing is set to the missing value. Which
  strings parse belongs to pandas and is the parameter \<open>parse\<close>.
\<close>

definition to_numeric_coerce :: "(string \<Rightarrow> int option) \<Rightarrow> cell \<Rightarrow> cell" where
  "to_numeric_coerce parse v =
     (case v of
        Num n \<Rightarrow> Num n
      | NA \<Rightarrow> NA
      | Str s \<Rightarrow> (case parse s of Some n \<Rightarrow> Num n | None \<Rightarrow> NA))"

definition coerce_col :: "(string \<Rightarrow> int option) \<Rightarrow> string \<Rightarrow> (string \<times> cell) list \<Rightarrow> (string \<times> cell) list" where
  "coerce_col parse name cells =
     map (\<lambda>(col, v). if col = name then (col, to_numeric_coerce parse v) else (col, v)) cells"

text \<open>\<^verbatim>\<open>combined_df.groupby(['CombinedBins'], as_index=False, observed=True).agg(agg_dict)\<close>
  over the rows of the merged table.\<close>

definition bin_level ::
  "(string option list \<Rightarrow> cell) \<Rightarrow> 'c table \<Rightarrow> bin_row list" where
  "bin_level object_sum t =
     map (\<lambda>b. \<lparr>bin_bins = b,
                bin_cells =
                  map (\<lambda>(col, dt).
                         (col, agg_sum object_sum dt col
                                 (filter (\<lambda>r. combined_bins r = Some b) (observations t))))
                    (agg_columns t)\<rparr>)
       (bin_keys t)"

text \<open>
  \<open>createTable\<close> returns the bin-level table, its two total columns passed through
  \<open>pd.to_numeric\<close>, and the site-level table as aggregated. Reading a total column that
  the table does not have raises.
\<close>

definition createTable ::
  "(string option list \<Rightarrow> cell) \<Rightarrow> (string \<Rightarrow> int option) \<Rightarrow> ('c::linorder) table
   \<Rightarrow> py_error + (bin_row list \<times> 'c site_row list)" where
  "createTable object_sum parse combined_df =
     (let combined_df_inds = site_level combined_df;
          combined_df_nations = bin_level object_sum combined_df
      in if ''y_haplos_sum'' \<in> fst ` set (agg_columns combined_df)
            \<and> ''mt_haplos_sum'' \<in> fst ` set (agg_columns combined_df)
         then Inr (map (\<lambda>row. row\<lparr>bin_cells :=
                          coerce_col parse ''mt_haplos_sum''
                            (coerce_col parse ''y_haplos_sum'' (bin_cells row))\<rparr>)
                     combined_df_nations,
                   combined_df_inds)
         else Inl KeyError)"

text \<open>The number in a cell of a site-level row (0 where the cell holds no number).\<close>

definition site_value :: "string \<Rightarrow> 'c site_row \<Rightarrow> int" where
  "site_value col sr = (case map_of (site_cells sr) col of Some (Num x) \<Rightarrow> x | _ \<Rightarrow> 0)"

text \<open>The number in a cell of a bin-level row.\<close>

definition bin_value :: "string \<Rightarrow> bin_row \<Rightarrow> int" where
  "bin_value col br = (case map_of (bin_cells br) col of Some (Num x) \<Rightarrow> x | _ \<Rightarrow> 0)"

section \<open>Merger: \<open>pd.merge\<close> of the two encoded tracks\<close>

text \<open>
  \<^verbatim>\<open>y_df = pd.concat([y_df, y_dummies_summed], axis=1)
  mt_df = pd.concat([mt_df, mt_dummies_summed], axis=1)
  combined_df_inds = pd.merge(y_df, mt_df, on=['Master ID', 'CombinedBins', 'Lat.', 'Long.'], how='outer')\<close>
  The model keeps of each track table the four columns of the merge key and the sum
  columns of the track; the other columns of the annotation table, which the merge
  carries twice under the suffixes \<open>_x\<close> and \<open>_y\<close>, hold no count and are left out.
\<close>

record 'c merge_key =
  master_id :: "string option"
  key_bins :: "string option"
  key_lat :: "'c option"
  key_long :: "'c option"

type_synonym 'c track_table = "('c merge_key \<times> num_row) list"

text \<open>
  The outer join: a left row is paired with every right row of the same key (two missing
  values count as the same key) or, when there is none, kept with the right columns
  missing; the right rows whose key no left row has are kept with the left columns
  missing. In which order pandas lists these rows is left open: the properties below hold
  for every arrangement of them.
\<close>

definition merge_outer :: "'c track_table \<Rightarrow> 'c track_table \<Rightarrow> 'c track_table" where
  "merge_outer left right =
     concat (map (\<lambda>(k, l). case filter (\<lambda>(k', r). k' = k) right of
                                [] \<Rightarrow> [(k, l)]
                              | m # ms \<Rightarrow> map (\<lambda>(k', r). (k, l @ r)) (m # ms)) left)
     @ filter (\<lambda>(k', r). \<not> list_ex (\<lambda>(k, l). k = k') left) right"

text \<open>A row of the merged table as \<open>createTable\<close> reads it.\<close>

definition merged_obs :: "'c merge_key \<times> num_row \<Rightarrow> 'c obs" where
  "merged_obs row =
     \<lparr>lat = key_lat (fst row), long = key_long (fst row), combined_bins = key_bins (fst row),
      num_cells = snd row,
      obj_cells = (case master_id (fst row) of None \<Rightarrow> [] | Some s \<Rightarrow> [(''Master ID'', s)])\<rparr>"

text \<open>What a record with the given key adds to a column of its track: 1 to the total and
  to the sum of its first letter when the key is retained, else nothing.\<close>

definition contribution :: "string \<Rightarrow> string \<Rightarrow> string \<Rightarrow> string \<Rightarrow> int" where
  "contribution suffix total_name key col =
     (if retained key \<and> (col = total_name \<or> col = take 1 key @ suffix) then 1 else 0)"

text \<open>The names of the columns of the encoded table of a track.\<close>

definition track_columns :: "string \<Rightarrow> string \<Rightarrow> string list \<Rightarrow> string list" where
  "track_columns suffix total_name series =
     map (\<lambda>l. l # suffix) (starting_letters (filter retained (dummy_columns series)))
     @ [total_name]"

section \<open>Concrete inputs\<close>

text \<open>Stand-ins for the two pandas parameters where a concrete run needs them: the sum of
  an \<open>object\<close> column concatenates its strings, and a string parses when it is a decimal
  numeral.\<close>

definition concat_strings :: "string option list \<Rightarrow> cell" where
  "concat_strings vs = Str (concat (List.map_filter (\<lambda>v. v) vs))"

fun digits_value :: "int \<Rightarrow> string \<Rightarrow> int option" where
  "digits_value acc [] = Some acc"
| "digits_value acc (c # s) =
     (if (48::nat) \<le> of_char c \<and> of_char c \<le> (57::nat)
      then digits_value (10 * acc + (of_char c - 48)) s else None)"

definition parse_decimal :: "string \<Rightarrow> int option" where
  "parse_decimal s = (if s = [] then None else digits_value 0 s)"

text \<open>Three records of one bin, two of them at one site: keys \<open>R\<close>, \<open>I\<close>, \<open>n/a\<close> on the
  Y track and \<open>H\<close> on the mitochondrial track.\<close>

definition sweden_table :: "int table" where
  "sweden_table =
     \<lparr>dtypes = [(''Master ID'', Object), (''I_y_sum'', Float64), (''R_y_sum'', Float64),
                (''y_haplos_sum'', Float64), (''H_mt_sum'', Float64), (''mt_haplos_sum'', Float64)],
      observations =
        [\<lparr>lat = Some 10, long = Some 20, combined_bins = Some ''Sweden (0-49999BP)'',
          num_cells = [(''I_y_sum'', 0), (''R_y_sum'', 1), (''y_haplos_sum'', 1),
                       (''H_mt_sum'', 1), (''mt_haplos_sum'', 1)],
          obj_cells = [(''Master ID'', ''a1'')]\<rparr>,
         \<lparr>lat = Some 10, long = Some 20, combined_bins = Some ''Sweden (0-49999BP)'',
          num_cells = [(''I_y_sum'', 1), (''R_y_sum'', 0), (''y_haplos_sum'', 1),
                       (''H_mt_sum'', 1), (''mt_haplos_sum'', 1)],
          obj_cells = [(''Master ID'', ''a2'')]\<rparr>,
         \<lparr>lat = Some 11, long = Some 20, combined_bins = Some ''Sweden (0-49999BP)'',
          num_cells = [(''I_y_sum'', 0), (''R_y_sum'', 0), (''y_haplos_sum'', 0)],
          obj_cells = [(''Master ID'', ''a3'')]\<rparr>]\<rparr>"

text \<open>A table whose Y total column is an \<open>object\<close> column holding a string that is no
  number.\<close>

definition residue_table :: "int table" where
  "residue_table =
     \<lparr>dtypes = [(''y_haplos_sum'', Object), (''mt_haplos_sum'', Float64)],
      observations =
        [\<lparr>lat = Some 10, long = Some 20, combined_bins = Some ''Sweden (0-49999BP)'',
          num_cells = [(''mt_haplos_sum'', 1)],
          obj_cells = [(''y_haplos_sum'', ''abc'')]\<rparr>]\<rparr>"

text \<open>The merge keys of three individuals of one bin, two of them at one site, and the
  merge key of an individual that the annotation table lists twice.\<close>

definition sweden_keys :: "int merge_key list" where
  "sweden_keys =
     [\<lparr>master_id = Some ''I1'', key_bins = Some ''Sweden (0-49999BP)'',
       key_lat = Some 10, key_long = Some 20\<rparr>,
      \<lparr>master_id = Some ''I2'', key_bins = Some ''Sweden (0-49999BP)'',
       key_lat = Some 10, key_long = Some 20\<rparr>,
      \<lparr>master_id = Some ''I3'', key_bins = Some ''Sweden (0-49999BP)'',
       key_lat = Some 11, key_long = Some 20\<rparr>]"

definition repeated_keys :: "int merge_key list" where
  "repeated_keys =
     [\<lparr>master_id = Some ''I1'', key_bins = Some ''Sweden (0-49999BP)'',
       key_lat = Some 10, key_long = Some 20\<rparr>,
      \<lparr>master_id = Some ''I1'', key_bins = Some ''Sweden (0-49999BP)'',
       key_lat = Some 10, key_long = Some 20\<rparr>]"

section \<open>Properties of the normalizer\<close>

lemma clean_haplo_char:
  "clean_haplo s =
     filter (\<lambda>x. x \<noteq> CHR ''~'' \<and> x \<noteq> CHR ''*'')
       (takeWhile (\<lambda>x. x \<noteq> CHR '';'' \<and> x \<noteq> CHR ''-'' \<and> x \<noteq> CHR ''('') s)"
proof -
  have "split_first (CHR ''('') (split_first (CHR ''-'') (split_first (CHR '';'') s))
        = takeWhile (\<lambda>x. x \<noteq> CHR '';'' \<and> x \<noteq> CHR ''-'' \<and> x \<noteq> CHR ''('') s"
    unfolding split_first_def by (induction s) auto
  then show ?thesis
    unfolding clean_haplo_def replace_empty_def by (simp add: conj_commute)
qed

lemma space_plain:
  "is_space c \<Longrightarrow>
   c \<noteq> CHR ''~'' \<and> c \<noteq> CHR ''*'' \<and> c \<noteq> CHR '';'' \<and> c \<noteq> CHR ''-'' \<and> c \<noteq> CHR ''(''"
  unfolding is_space_def by auto

text \<open>
  C8 (as the code has it). The cleaned string is the input cut before the first of
  \<open>;\<close>, \<open>-\<close>, \<open>(\<close> with every \<open>~\<close> and \<open>*\<close> deleted; it is a function of
  the input alone; the empty input gives the empty string. Nothing strips whitespace:
  an input made of whitespace only is returned as it is.
\<close>

theorem clean_haplo_contract:
  "clean_haplo s =
     filter (\<lambda>x. x \<noteq> CHR ''~'' \<and> x \<noteq> CHR ''*'')
       (takeWhile (\<lambda>x. x \<noteq> CHR '';'' \<and> x \<noteq> CHR ''-'' \<and> x \<noteq> CHR ''('') s)
   \<and> clean_haplo [] = []
   \<and> (list_all is_space s \<longrightarrow> clean_haplo s = s)"
proof -
  have "clean_haplo s = s" if a: "list_all is_space s"
  proof -
    from a have t: "takeWhile (\<lambda>x. x \<noteq> CHR '';'' \<and> x \<noteq> CHR ''-'' \<and> x \<noteq> CHR ''('') s = s"
      by (intro takeWhile_eq_all_conv [THEN iffD2]) (auto simp: list_all_iff dest: space_plain)
    have f: "filter (\<lambda>x. x \<noteq> CHR ''~'' \<and> x \<noteq> CHR ''*'') s = s"
      using a by (intro filter_True) (auto simp: list_all_iff dest: space_plain)
    show ?thesis unfolding clean_haplo_char t f ..
  qed
  moreover have "clean_haplo [] = []" by (simp add: clean_haplo_char)
  ultimately show ?thesis using clean_haplo_char by blast
qed

theorem clean_haplo_contract_witness:
  "list_all is_space '' '' \<and> clean_haplo '' '' = '' ''"
  using clean_haplo_contract [of "'' ''"] by (simp add: is_space_def)

text \<open>C8 as the specification states it fails: two blanks are whitespace only, and the
  result is the two blanks, not the empty string.\<close>

theorem clean_haplo_whitespace_counterexample:
  "list_all is_space ''  '' \<and> clean_haplo ''  '' \<noteq> []"
  by (simp add: is_space_def clean_haplo_def split_first_def replace_empty_def)

section \<open>Properties of the resolver\<close>

lemma sweep_prefix:
  "n \<le> length data \<Longrightarrow>
   foldl (\<lambda>d index. d[index := upd (d ! index)]) data [0..<n]
     = map upd (take n data) @ drop n data"
proof (induction n)
  case 0
  then show ?case by simp
next
  case (Suc n)
  then have n: "n < length data" by simp
  have "(map upd (take n data) @ drop n data)[n := upd ((map upd (take n data) @ drop n data) ! n)]
        = map upd (take (Suc n) data) @ drop (Suc n) data"
    using n by (simp add: take_Suc_conv_app_nth list_update_append nth_append
        upd_conv_take_nth_drop Cons_nth_drop_Suc [symmetric])
  with Suc show ?case by simp
qed

lemma sweep_map: "sweep upd data = map upd data"
  unfolding sweep_def using sweep_prefix [of "length data" data upd] by simp

lemma resolve_loop_step:
  "unresolved_left data \<Longrightarrow> loop < 50 \<Longrightarrow>
   resolve_loop upd data loop = resolve_loop upd (sweep upd data) (loop + 1)"
  by (subst resolve_loop.simps) simp

lemma resolve_loop_stop:
  "\<not> (unresolved_left data \<and> loop < 50) \<Longrightarrow> resolve_loop upd data loop = (data, loop)"
  by (subst resolve_loop.simps) auto

lemma resolve_loop_fixed:
  "i < length data \<Longrightarrow> upd (data ! i) = data ! i \<Longrightarrow>
   length (fst (resolve_loop upd data loop)) = length data \<and>
   fst (resolve_loop upd data loop) ! i = data ! i"
proof (induction upd data loop rule: resolve_loop.induct)
  case (1 upd data loop)
  show ?case
  proof (cases "unresolved_left data \<and> loop < 50")
    case True
    have "i < length (sweep upd data)" "upd (sweep upd data ! i) = sweep upd data ! i"
      using "1.prems" by (simp_all add: sweep_map)
    with "1.IH" [OF True] have "length (fst (resolve_loop upd (sweep upd data) (loop + 1))) = length (sweep upd data)
        \<and> fst (resolve_loop upd (sweep upd data) (loop + 1)) ! i = sweep upd data ! i"
      by blast
    then show ?thesis using True "1.prems"
      by (simp add: resolve_loop_step sweep_map)
  next
    case False
    then show ?thesis by (simp only: resolve_loop_stop fst_conv simp_thms)
  qed
qed

lemma resolve_loop_count:
  "loop \<le> 50 \<Longrightarrow> loop \<le> snd (resolve_loop upd data loop) \<and> snd (resolve_loop upd data loop) \<le> 50"
proof (induction upd data loop rule: resolve_loop.induct)
  case (1 upd data loop)
  show ?case
  proof (cases "unresolved_left data \<and> loop < 50")
    case True
    with "1.IH" [OF True] show ?thesis
      by (simp add: resolve_loop_step)
  next
    case False
    with "1.prems" show ?thesis by (simp only: resolve_loop_stop snd_conv simp_thms)
  qed
qed

lemma resolve_loop_iter:
  "fst (resolve_loop upd data loop) = ((map upd) ^^ (snd (resolve_loop upd data loop) - loop)) data"
proof (induction upd data loop rule: resolve_loop.induct)
  case (1 upd data loop)
  show ?case
  proof (cases "unresolved_left data \<and> loop < 50")
    case True
    then have le: "Suc loop \<le> snd (resolve_loop upd (sweep upd data) (loop + 1))"
      using resolve_loop_count [of "loop + 1" upd "sweep upd data"] by simp
    have eq: "resolve_loop upd data loop = resolve_loop upd (sweep upd data) (loop + 1)"
      using True by (simp add: resolve_loop_step)
    have "snd (resolve_loop upd (sweep upd data) (loop + 1)) - loop
          = Suc (snd (resolve_loop upd (sweep upd data) (loop + 1)) - (loop + 1))"
      using le by simp
    then show ?thesis
      using "1.IH" [OF True] unfolding eq by (simp add: sweep_map funpow_swap1)
  next
    case False
    then have "resolve_loop upd data loop = (data, loop)" by (rule resolve_loop_stop)
    then show ?thesis by simp
  qed
qed

lemma resolve_loop_early:
  "snd (resolve_loop upd data loop) < 50 \<Longrightarrow> \<not> unresolved_left (fst (resolve_loop upd data loop))"
proof (induction upd data loop rule: resolve_loop.induct)
  case (1 upd data loop)
  show ?case
  proof (cases "unresolved_left data \<and> loop < 50")
    case True
    then have eq: "resolve_loop upd data loop = resolve_loop upd (sweep upd data) (loop + 1)"
      by (simp add: resolve_loop_step)
    show ?thesis using "1.IH" [OF True] "1.prems" unfolding eq by simp
  next
    case False
    then have eq: "resolve_loop upd data loop = (data, loop)"
      by (rule resolve_loop_stop)
    show ?thesis using False "1.prems" unfolding eq by simp
  qed
qed

lemma resolve_loop_running:
  "j < snd (resolve_loop upd data loop) - loop \<Longrightarrow> unresolved_left (((map upd) ^^ j) data)"
proof (induction upd data loop arbitrary: j rule: resolve_loop.induct)
  case (1 upd data loop)
  show ?case
  proof (cases "unresolved_left data \<and> loop < 50")
    case True
    then have eq: "resolve_loop upd data loop = resolve_loop upd (sweep upd data) (loop + 1)"
      by (simp add: resolve_loop_step)
    show ?thesis
    proof (cases j)
      case 0
      then show ?thesis using True by simp
    next
      case (Suc j')
      then have "j' < snd (resolve_loop upd (sweep upd data) (loop + 1)) - (loop + 1)"
        using "1.prems" unfolding eq by simp
      from "1.IH" [OF True this] show ?thesis
        unfolding Suc by (simp add: sweep_map funpow_swap1)
    qed
  next
    case False
    then have eq: "resolve_loop upd data loop = (data, loop)"
      by (rule resolve_loop_stop)
    show ?thesis using "1.prems" unfolding eq by simp
  qed
qed

lemma y_update_short: "length h \<le> 1 \<Longrightarrow> y_update B S L h = h"
  by (simp add: y_update_def)

lemma mt_update_short: "length h \<le> 1 \<Longrightarrow> mt_update B S h = h"
  by (simp add: mt_update_def)

text \<open>
  In the list of the loop, an entry whose cleaned string has length 1 keeps exactly that
  string: after one round of either track, and in the list that the loop of either track
  leaves, whatever the three dictionaries hold and whatever the other entries are.
\<close>

lemma single_letter_in_list:
  assumes "i < length raw" and "length (clean_haplo (raw ! i)) = 1"
  shows "sweep (y_update B S L) (map clean_haplo raw) ! i = clean_haplo (raw ! i)
       \<and> sweep (mt_update B S) (map clean_haplo raw) ! i = clean_haplo (raw ! i)
       \<and> fst (y_resolve B S' L raw) ! i = clean_haplo (raw ! i)
       \<and> fst (mt_resolve B S' raw) ! i = clean_haplo (raw ! i)"
proof -
  let ?d = "map clean_haplo raw"
  have i: "i < length ?d" and d: "?d ! i = clean_haplo (raw ! i)" using assms by simp_all
  have y: "y_update B T L (?d ! i) = ?d ! i" for T using assms by (simp add: y_update_short)
  have m: "mt_update B T (?d ! i) = ?d ! i" for T using assms by (simp add: mt_update_short)
  have "fst (y_resolve B S' L raw) ! i = ?d ! i"
    unfolding y_resolve_def by (rule resolve_loop_fixed [THEN conjunct2]) (rule i, rule y)
  moreover have "fst (mt_resolve B S' raw) ! i = ?d ! i"
    unfolding mt_resolve_def by (rule resolve_loop_fixed [THEN conjunct2]) (rule i, rule m)
  ultimately show ?thesis using i y m d by (simp add: sweep_map)
qed

lemma map_of_rev_swap:
  "map_of (rev (map (\<lambda>(k, v). (v, k)) d)) h =
     (case filter (\<lambda>kv. snd kv = h) d of [] \<Rightarrow> None | x # xs \<Rightarrow> Some (fst (last (x # xs))))"
proof (induction d rule: rev_induct)
  case Nil
  then show ?case by simp
next
  case (snoc a d)
  then show ?case by (cases a) (auto split: list.splits)
qed

lemma invert_dict_lookup:
  "map_of (invert_dict d) h =
     (if h \<in> snd ` set d then Some (fst (last (filter (\<lambda>kv. snd kv = h) d))) else None)"
proof -
  have "(filter (\<lambda>kv. snd kv = h) d = []) = (h \<notin> snd ` set d)"
    by (auto simp: filter_empty_conv)
  then show ?thesis
    unfolding invert_dict_def map_of_rev_swap by (auto split: list.splits)
qed

text \<open>
  C6 (as the code has it). A round rewrites every entry independently. An entry of length
  at most 1 is left alone. Every entry of length above 1 is rewritten, the value
  \<open>n/a\<close> that rule 4 assigns included (the guard is the length alone): (1) to its value
  in the hierarchy dictionary when that value is neither \<open>#\<close> nor \<open>Root\<close>; (2) else, when
  it occurs as a value of the SNP dictionary, to the key of the last item holding it;
  (3) on the Y track only, else to its value in the locus dictionary; (4) else to
  \<open>n/a\<close>. The mitochondrial track has rules 1, 2 and 4.
\<close>

theorem round_priority:
  assumes "i < length data"
  shows "(length (data ! i) \<le> 1 \<longrightarrow>
            sweep (y_update B (invert_dict S) L) data ! i = data ! i
          \<and> sweep (mt_update B (invert_dict S)) data ! i = data ! i)
       \<and> (length (data ! i) > 1 \<longrightarrow>
            sweep (y_update B (invert_dict S) L) data ! i =
              (case map_of B (data ! i) of
                 Some p \<Rightarrow> if p \<noteq> ''#'' \<and> p \<noteq> ''Root'' then p else
                   if data ! i \<in> snd ` set S then fst (last (filter (\<lambda>kv. snd kv = data ! i) S))
                   else (case map_of L (data ! i) of Some v \<Rightarrow> v | None \<Rightarrow> ''n/a'')
               | None \<Rightarrow>
                   if data ! i \<in> snd ` set S then fst (last (filter (\<lambda>kv. snd kv = data ! i) S))
                   else (case map_of L (data ! i) of Some v \<Rightarrow> v | None \<Rightarrow> ''n/a''))
          \<and> sweep (mt_update B (invert_dict S)) data ! i =
              (case map_of B (data ! i) of
                 Some p \<Rightarrow> if p \<noteq> ''#'' \<and> p \<noteq> ''Root'' then p else
                   if data ! i \<in> snd ` set S then fst (last (filter (\<lambda>kv. snd kv = data ! i) S))
                   else ''n/a''
               | None \<Rightarrow>
                   if data ! i \<in> snd ` set S then fst (last (filter (\<lambda>kv. snd kv = data ! i) S))
                   else ''n/a''))"
  using assms
  by (simp add: sweep_map y_update_def mt_update_def invert_dict_lookup split: option.splits)

theorem round_priority_witness:
  "sweep (y_update [(''n/a'', ''R'')] (invert_dict []) []) [''n/a'', ''R1''] ! 0 = ''R''"
proof -
  have a: "(0::nat) < length [''n/a'', ''R1'']" by simp
  show ?thesis
    using round_priority [OF a, of "[(''n/a'', ''R'')]" "[]" "[]"] by simp
qed

text \<open>C6 as the specification states it fails: an entry equal to the assigned value
  \<open>n/a\<close> is rewritten when a dictionary holds it, and an entry equal to the literal of the
  loop condition, \<open>n/a(Female)\<close>, is rewritten to \<open>n/a\<close>.\<close>

theorem sentinel_rewritten_counterexample:
  "sweep (y_update [(''n/a'', ''R'')] (invert_dict []) []) [''n/a''] = [''R'']
   \<and> sweep (mt_update [] (invert_dict [])) [''n/a(Female)''] = [''n/a'']"
  by (simp add: sweep_map y_update_def mt_update_def invert_dict_def)

text \<open>
  C2. The loop never runs more than 50 rounds, whatever the dictionaries (lemmas
  \<open>resolve_loop_count\<close>, \<open>resolve_loop_iter\<close>, \<open>resolve_loop_early\<close>,
  \<open>resolve_loop_running\<close>). It does not stop when every entry is a single letter or
  the value \<open>n/a\<close> that rule 4 assigns: the loop condition compares with
  \<open>n/a(Female)\<close>. One unknown haplogroup and empty dictionaries: after round 1 the only
  entry is \<open>n/a\<close>, and both tracks go on to round 50.
\<close>

theorem unresolved_entry_runs_to_bound:
  "y_resolve [] [] [] [''Z9''] = ([''n/a''], 50)
   \<and> mt_resolve [] [] [''Z9''] = ([''n/a''], 50)
   \<and> sweep (y_update [] (invert_dict []) []) (map clean_haplo [''Z9'']) = [''n/a'']"
  by code_simp
section \<open>Properties of the encoder\<close>

lemma cols_to_keep_Inr:
  "cols_to_keep cols = Inr keep \<Longrightarrow> keep = filter retained cols \<and> [] \<notin> set cols"
proof (induction cols arbitrary: keep)
  case Nil
  then show ?case by simp
next
  case (Cons col cols)
  show ?case
  proof (cases "startswith ''n'' col")
    case True
    then have "col \<noteq> []" by (auto simp: startswith_def)
    with True Cons show ?thesis by (auto simp: retained_def)
  next
    case False
    with Cons.prems obtain c cs where col: "col = c # cs"
      by (cases col) auto
    from False Cons.prems col obtain keep' where k: "cols_to_keep cols = Inr keep'"
      and keep: "keep = (if isalpha c then col # keep' else keep')"
      by (auto split: sum.splits)
    from Cons.IH [OF k] False col keep show ?thesis
      by (auto simp: retained_def)
  qed
qed

lemma cols_to_keep_total:
  "[] \<notin> set cols \<Longrightarrow> cols_to_keep cols = Inr (filter retained cols)"
proof (induction cols)
  case Nil
  then show ?case by simp
next
  case (Cons col cols)
  then obtain c cs where col: "col = c # cs" by (cases col) auto
  with Cons show ?case by (auto simp: retained_def)
qed

lemma cols_to_keep_error: "[] \<in> set cols \<Longrightarrow> cols_to_keep cols = Inl IndexError"
proof (induction cols)
  case Nil
  then show ?case by simp
next
  case (Cons col cols)
  show ?case
  proof (cases "col = []")
    case True
    then show ?thesis by (simp add: startswith_def)
  next
    case False
    then obtain c cs where col: "col = c # cs" by (cases col) auto
    from False Cons have "cols_to_keep cols = Inl IndexError" by auto
    with col show ?thesis by simp
  qed
qed

lemma startswith_letter: "startswith [l] s = (take 1 s = [l])"
  by (simp add: startswith_def)

lemma contains_suffix: "contains_str p s \<Longrightarrow> contains_str p (c # s)"
  by simp

lemma letter_sum_dummy:
  "distinct keep \<Longrightarrow>
   letter_sum l (dummy_row keep k) = (if k \<in> set keep \<and> take 1 k = [l] then 1 else 0)"
  unfolding letter_sum_def dummy_row_def
  by (induction keep) (auto simp: startswith_letter)

lemma add_letter_sums_append:
  assumes "distinct letters"
    and "\<forall>col \<in> fst ` set row. \<not> contains_str ''_sum'' col"
    and "contains_str ''_sum'' suffix"
    and "\<forall>col \<in> fst ` set acc. \<exists>l. col = l # suffix \<and> l \<notin> set letters"
  shows "add_letter_sums suffix letters (row @ acc)
         = row @ acc @ map (\<lambda>l. (l # suffix, letter_sum l row)) letters"
  using assms
proof (induction letters arbitrary: acc)
  case Nil
  then show ?case by simp
next
  case (Cons l letters)
  have "contains_str ''_sum'' (l # suffix)"
    using Cons.prems(3) by simp
  then have fresh_row: "l # suffix \<notin> fst ` set row"
    using Cons.prems(2) by (auto simp del: contains_str.simps)
  have fresh_acc: "l # suffix \<notin> fst ` set acc"
    using Cons.prems(4) by auto
  have no_acc: "filter (\<lambda>(col, x). startswith [l] col) acc = []"
    using Cons.prems(4) by (auto simp: filter_empty_conv startswith_letter)
  have v: "sum_list (map snd (filter (\<lambda>(col, x). startswith [l] col) (row @ acc))) = letter_sum l row"
    by (simp add: no_acc letter_sum_def)
  have a: "assign_col (l # suffix) (letter_sum l row) (row @ acc)
           = row @ (acc @ [(l # suffix, letter_sum l row)])"
    using fresh_row fresh_acc by (simp add: assign_col_def image_Un)
  have acc': "\<forall>col \<in> fst ` set (acc @ [(l # suffix, letter_sum l row)]).
               \<exists>l'. col = l' # suffix \<and> l' \<notin> set letters"
    using Cons.prems(1,4) by auto
  have "distinct letters" using Cons.prems(1) by simp
  from Cons.IH [OF this Cons.prems(2,3) acc']
  have ih: "add_letter_sums suffix letters (row @ (acc @ [(l # suffix, letter_sum l row)]))
            = row @ (acc @ [(l # suffix, letter_sum l row)])
              @ map (\<lambda>l. (l # suffix, letter_sum l row)) letters" .
  have "add_letter_sums suffix (l # letters) (row @ acc)
        = add_letter_sums suffix letters
            (assign_col (l # suffix)
               (sum_list (map snd (filter (\<lambda>(col, x). startswith [l] col) (row @ acc)))) (row @ acc))"
    by (simp only: add_letter_sums.simps)
  also have "\<dots> = add_letter_sums suffix letters (row @ (acc @ [(l # suffix, letter_sum l row)]))"
    by (simp only: v a)
  also note ih
  finally show ?case by simp
qed

lemma sum_indicator:
  "distinct xs \<Longrightarrow>
   sum_list (map (\<lambda>x. if P \<and> x = a then 1 else 0) xs) = (if P \<and> a \<in> set xs then (1::int) else 0)"
  by (induction xs) auto

lemma encode_row_shape:
  assumes nosum: "\<forall>col \<in> set keep. \<not> contains_str ''_sum'' col"
    and dist: "distinct keep"
    and nonempty: "[] \<notin> set keep"
    and suf: "contains_str ''_sum'' suffix"
    and tot: "\<forall>l. total_name \<noteq> l # suffix"
  shows "summed_row total_name (add_letter_sums suffix (starting_letters keep) (dummy_row keep k))
         = map (\<lambda>l. (l # suffix, if k \<in> set keep \<and> take 1 k = [l] then 1 else 0))
             (starting_letters keep)
           @ [(total_name, if k \<in> set keep then 1 else 0)]"
proof -
  let ?letters = "starting_letters keep"
  let ?row = "dummy_row keep k"
  let ?sums = "map (\<lambda>l. (l # suffix, letter_sum l ?row)) ?letters"
  have dl: "distinct ?letters" by (simp add: starting_letters_def)
  have names: "fst ` set ?row = set keep" by (force simp: dummy_row_def)
  have "add_letter_sums suffix ?letters (?row @ []) = ?row @ [] @ ?sums"
    by (rule add_letter_sums_append) (use dl nosum suf names in auto)
  then have step1: "add_letter_sums suffix ?letters ?row = ?row @ ?sums" by simp
  have f1: "filter (\<lambda>(col, x). contains_str ''_sum'' col) ?row = []"
    using nosum names by (auto simp: filter_empty_conv dummy_row_def)
  have f2: "filter (\<lambda>(col, x). contains_str ''_sum'' col) ?sums = ?sums"
    using suf by (auto intro!: filter_True)
  have fresh: "total_name \<notin> fst ` set ?sums" using tot by auto
  have vals: "?sums = map (\<lambda>l. (l # suffix, if k \<in> set keep \<and> take 1 k = [l] then 1 else 0)) ?letters"
    by (simp add: letter_sum_dummy [OF dist])
  have mapsnd: "map snd ?sums = map (\<lambda>l. if k \<in> set keep \<and> take 1 k = [l] then 1 else 0) ?letters"
    by (simp add: letter_sum_dummy [OF dist] comp_def)
  have hdk: "k \<in> set keep \<Longrightarrow> hd k \<in> set ?letters \<and> k \<noteq> []"
  proof -
    assume a: "k \<in> set keep"
    then have ne: "k \<noteq> []" using nonempty by auto
    then have "take 1 k = [hd k]" by (cases k) auto
    with a show ?thesis using ne by (force simp: starting_letters_def)
  qed
  have t1: "(take 1 k = [l]) = (k \<noteq> [] \<and> l = hd k)" for l by (cases k) auto
  have "sum_list (map snd ?sums) = sum_list (map (\<lambda>l. if (k \<in> set keep \<and> k \<noteq> []) \<and> l = hd k then 1 else 0) ?letters)"
    unfolding mapsnd by (simp only: t1 conj_assoc)
  also have "\<dots> = (if (k \<in> set keep \<and> k \<noteq> []) \<and> hd k \<in> set ?letters then 1 else 0)"
    by (rule sum_indicator [OF dl])
  also have "\<dots> = (if k \<in> set keep then 1 else 0)" using hdk by auto
  finally have total: "sum_list (map snd ?sums) = (if k \<in> set keep then 1 else 0)" .
  have A: "summed_row total_name (?row @ ?sums) = ?sums @ [(total_name, sum_list (map snd ?sums))]"
    unfolding summed_row_def Let_def filter_append f1 f2 using fresh
    by (simp add: assign_col_def)
  have "summed_row total_name (add_letter_sums suffix ?letters ?row)
        = summed_row total_name (?row @ ?sums)"
    by (simp only: step1)
  also note A
  also have "?sums @ [(total_name, sum_list (map snd ?sums))]
             = ?sums @ [(total_name, if k \<in> set keep then 1 else 0)]"
    by (simp only: total)
  also have "\<dots> = map (\<lambda>l. (l # suffix, if k \<in> set keep \<and> take 1 k = [l] then 1 else 0)) ?letters
               @ [(total_name, if k \<in> set keep then 1 else 0)]"
    by (simp only: vals)
  finally show ?thesis .
qed

lemma dummy_row_nonzero:
  "distinct cols \<Longrightarrow>
   filter (\<lambda>(col, x). x \<noteq> 0) (dummy_row cols k) = (if k \<in> set cols then [(k, 1)] else [])"
  unfolding dummy_row_def by (induction cols) auto

lemma dummy_columns_set: "set (dummy_columns series) = set series \<and> distinct (dummy_columns series)"
  by (simp add: dummy_columns_def)

lemma filter_dummy_row:
  "filter (\<lambda>(col, x). Q col) (dummy_row cols k) = dummy_row (filter Q cols) k"
  unfolding dummy_row_def by (induction cols) auto

lemma filter_keep:
  "filter (\<lambda>(col, x). col \<in> set (filter P cols)) (dummy_row cols k) = dummy_row (filter P cols) k"
proof -
  have "filter (\<lambda>col. col \<in> set (filter P cols)) cols = filter P cols"
    by (rule filter_cong) auto
  then show ?thesis by (simp only: filter_dummy_row)
qed

lemma encode_track_shape:
  assumes keys: "\<forall>key \<in> set series. key \<noteq> [] \<and> \<not> contains_str ''_sum'' key"
    and suf: "contains_str ''_sum'' suffix"
    and tot: "\<forall>l. total_name \<noteq> l # suffix"
  shows "encode_track suffix total_name series =
     Inr (map (\<lambda>key.
            map (\<lambda>l. (l # suffix, if retained key \<and> take 1 key = [l] then 1 else 0))
              (starting_letters (filter retained (dummy_columns series)))
            @ [(total_name, if retained key then 1 else 0)]) series)"
proof -
  let ?cols = "dummy_columns series"
  let ?keep = "filter retained ?cols"
  have "[] \<notin> set ?cols" using keys by (auto simp: dummy_columns_set)
  then have k: "cols_to_keep ?cols = Inr ?keep" by (rule cols_to_keep_total)
  have nosum: "\<forall>col \<in> set ?keep. \<not> contains_str ''_sum'' col"
    using keys by (auto simp: dummy_columns_set)
  have dist: "distinct ?keep" by (simp add: dummy_columns_set)
  have ne: "[] \<notin> set ?keep" using keys by (auto simp: dummy_columns_set)
  have row: "summed_row total_name
          (add_letter_sums suffix (starting_letters ?keep)
             (filter (\<lambda>(col, x). col \<in> set ?keep) (dummy_row ?cols key)))
        = map (\<lambda>l. (l # suffix, if retained key \<and> take 1 key = [l] then 1 else 0))
              (starting_letters ?keep)
            @ [(total_name, if retained key then 1 else 0)]"
    if "key \<in> set series" for key
  proof -
    have m: "(key \<in> set ?keep) = retained key" using that by (simp add: dummy_columns_set)
    show ?thesis
      unfolding filter_keep encode_row_shape [OF nosum dist ne suf tot] m ..
  qed
  have rows: "map (\<lambda>dummies. summed_row total_name
                 (add_letter_sums suffix (starting_letters ?keep)
                    (filter (\<lambda>(col, x). col \<in> set ?keep) dummies)))
               (map (dummy_row ?cols) series)
        = map (\<lambda>key. map (\<lambda>l. (l # suffix, if retained key \<and> take 1 key = [l] then 1 else 0))
                         (starting_letters ?keep)
                       @ [(total_name, if retained key then 1 else 0)]) series"
    unfolding map_map by (rule map_cong [OF refl]) (simp only: comp_def row)
  show ?thesis
    unfolding encode_track_def k get_dummies_def sum.case rows ..
qed

text \<open>
  The encoded row of one record, in a batch with no empty key and no key that contains
  \<open>_sum\<close>: the \<open>get_dummies\<close> row has exactly one non-zero cell, and the encoded row of
  either track lists the per-letter sums and then the total.
\<close>

lemma encoded_row_shape_at:
  assumes "i < length series"
    and "\<forall>key \<in> set series. key \<noteq> [] \<and> \<not> contains_str ''_sum'' key"
  shows "filter (\<lambda>(col, x). x \<noteq> 0) (get_dummies series ! i) = [(series ! i, 1)]
     \<and> (\<exists>rows. encode_track ''_y_sum'' ''y_haplos_sum'' series = Inr rows
           \<and> length rows = length series
           \<and> rows ! i =
               map (\<lambda>l. (l # ''_y_sum'',
                          if retained (series ! i) \<and> take 1 (series ! i) = [l] then 1 else 0))
                 (starting_letters (filter retained (dummy_columns series)))
               @ [(''y_haplos_sum'', if retained (series ! i) then 1 else 0)])
     \<and> (\<exists>rows. encode_track ''_mt_sum'' ''mt_haplos_sum'' series = Inr rows
           \<and> length rows = length series
           \<and> rows ! i =
               map (\<lambda>l. (l # ''_mt_sum'',
                          if retained (series ! i) \<and> take 1 (series ! i) = [l] then 1 else 0))
                 (starting_letters (filter retained (dummy_columns series)))
               @ [(''mt_haplos_sum'', if retained (series ! i) then 1 else 0)])"
proof -
  have mem: "series ! i \<in> set (dummy_columns series)"
    using assms(1) by (simp add: dummy_columns_set)
  have one: "filter (\<lambda>(col, x). x \<noteq> 0) (get_dummies series ! i) = [(series ! i, 1)]"
    using assms(1) mem by (simp add: get_dummies_def dummy_row_nonzero dummy_columns_set)
  have y: "contains_str ''_sum'' ''_y_sum''" "\<forall>l. ''y_haplos_sum'' \<noteq> l # ''_y_sum''"
    by (simp_all add: startswith_def)
  have m: "contains_str ''_sum'' ''_mt_sum''" "\<forall>l. ''mt_haplos_sum'' \<noteq> l # ''_mt_sum''"
    by (simp_all add: startswith_def)
  show ?thesis
    using one assms(1)
    by (simp add: encode_track_shape [OF assms(2) y] encode_track_shape [OF assms(2) m])
qed

text \<open>
  C1. The mitochondrial indicator columns are not derived from the resolved keys:
  \<open>createDummyVariables\<close> reads the raw column, and nothing reads the column
  \<open>Updated mtDNA haplogroup\<close>. Raw \<open>HV\<close> with hierarchy \<open>HV \<rightarrow> R0 \<rightarrow> R\<close> resolves to
  \<open>R\<close>; the indicator column is \<open>HV\<close> (length 2) and the record is counted under
  \<open>H\<close>, where the resolved key would be counted under \<open>R\<close>.
\<close>

theorem mt_encoding_reads_raw_column:
  "updated_mt_haplogroup
     (findMTBasalHaplogroups
        \<lparr>y_haplogroup = [''R''], mt_haplogroup = [''HV''], updated_mt_haplogroup = None\<rparr>
        [] [(''HV'', ''R0''), (''R0'', ''R'')]) = Some [''R'']
   \<and> cols_to_keep (dummy_columns (mt_haplogroup
        (findMTBasalHaplogroups
           \<lparr>y_haplogroup = [''R''], mt_haplogroup = [''HV''], updated_mt_haplogroup = None\<rparr>
           [] [(''HV'', ''R0''), (''R0'', ''R'')]))) = Inr [''HV'']
   \<and> createDummyVariables
        \<lparr>y_haplogroup = [''R''], mt_haplogroup = [''HV''], updated_mt_haplogroup = None\<rparr>
        (findMTBasalHaplogroups
           \<lparr>y_haplogroup = [''R''], mt_haplogroup = [''HV''], updated_mt_haplogroup = None\<rparr>
           [] [(''HV'', ''R0''), (''R0'', ''R'')])
      = Inr ([[(''R_y_sum'', 1), (''y_haplos_sum'', 1)]],
             [[(''H_mt_sum'', 1), (''mt_haplos_sum'', 1)]])
   \<and> encode_track ''_mt_sum'' ''mt_haplos_sum'' [''R'']
      = Inr [[(''R_mt_sum'', 1), (''mt_haplos_sum'', 1)]]"
  by code_simp

text \<open>
  C9. The loop leaves an entry of length 1 alone (\<open>single_letter_in_list\<close>), but
  \<open>findYBasalHaplogroups\<close> writes the list back to the Y column inside the loop body.
  The record with raw string \<open>R*\<close> has the candidate key \<open>R\<close>. Alone in the batch no
  round runs and the returned column holds \<open>R*\<close>, not the letter; beside a record
  \<open>R1b\<close> a round runs and the returned column holds \<open>R\<close> for the same record. The
  mitochondrial function stores its list after the loop and returns the letter.
\<close>

theorem y_column_not_written_without_round:
  "clean_haplo ''R*'' = ''R''
   \<and> y_haplogroup (findYBasalHaplogroups
        \<lparr>y_haplogroup = [''R*''], mt_haplogroup = [''H''], updated_mt_haplogroup = None\<rparr>
        [] [] []) = [''R*'']
   \<and> y_haplogroup (findYBasalHaplogroups
        \<lparr>y_haplogroup = [''R*'', ''R1b''], mt_haplogroup = [''H'', ''H''],
         updated_mt_haplogroup = None\<rparr>
        [] [(''R1b'', ''R'')] []) = [''R'', ''R'']
   \<and> updated_mt_haplogroup (findMTBasalHaplogroups
        \<lparr>y_haplogroup = [''R''], mt_haplogroup = [''H*''], updated_mt_haplogroup = None\<rparr>
        [] []) = Some [''H'']"
  by code_simp

section \<open>Properties of the aggregator\<close>

lemma set_map_filter_eq: "set (List.map_filter f xs) = {y. \<exists>x \<in> set xs. f x = Some y}"
  by (induction xs) (auto split: option.splits)

lemma site_keys_set:
  "set (site_keys t) = {k. \<exists>r \<in> set (observations t). site_key r = Some k}"
  by (auto simp: site_keys_def set_map_filter_eq)

lemma site_keys_distinct: "distinct (site_keys t)"
  by (simp add: site_keys_def)

lemma bin_keys_set:
  "set (bin_keys t) = {b. \<exists>r \<in> set (observations t). combined_bins r = Some b}"
  by (auto simp: bin_keys_def set_map_filter_eq)

lemma bin_keys_distinct: "distinct (bin_keys t)"
  by (simp add: bin_keys_def)

lemma site_key_Some:
  "(site_key r = Some (la, lo, b)) = (lat r = Some la \<and> long r = Some lo \<and> combined_bins r = Some b)"
  by (auto simp: site_key_def split: option.splits)

lemma createTable_Inr:
  "createTable object_sum parse t = Inr (nations, inds) \<Longrightarrow>
   inds = site_level t
   \<and> nations = map (\<lambda>row. row\<lparr>bin_cells := coerce_col parse ''mt_haplos_sum''
                         (coerce_col parse ''y_haplos_sum'' (bin_cells row))\<rparr>) (bin_level object_sum t)
   \<and> ''y_haplos_sum'' \<in> fst ` set (agg_columns t) \<and> ''mt_haplos_sum'' \<in> fst ` set (agg_columns t)"
  by (auto simp: createTable_def Let_def split: if_splits)

lemma grouped_sum:
  "distinct ks \<Longrightarrow>
   sum_list (map (\<lambda>k. sum_list (map f (filter (\<lambda>r. g r = Some k) xs))) ks)
   = (sum_list (map f (filter (\<lambda>r. \<exists>k \<in> set ks. g r = Some k) xs)) :: int)"
proof (induction ks)
  case Nil
  then show ?case by simp
next
  case (Cons k ks)
  have split: "sum_list (map f (filter (\<lambda>r. g r = Some k \<or> (\<exists>k' \<in> set ks. g r = Some k')) xs))
     = sum_list (map f (filter (\<lambda>r. g r = Some k) xs))
       + sum_list (map f (filter (\<lambda>r. \<exists>k' \<in> set ks. g r = Some k') xs))"
    using Cons.prems by (induction xs) auto
  from Cons show ?case by (simp add: split)
qed

lemma map_of_computed:
  "distinct (map fst xs) \<Longrightarrow> (col, dt) \<in> set xs \<Longrightarrow>
   map_of (map (\<lambda>(c, d). (c, F c d)) xs) col = Some (F col dt)"
  by (induction xs) (auto simp: rev_image_eqI)

lemma map_of_coerce_col:
  "map_of (coerce_col parse name cells) col
   = map_option (\<lambda>v. if col = name then to_numeric_coerce parse v else v) (map_of cells col)"
  unfolding coerce_col_def by (induction cells) auto

lemma to_numeric_Num: "to_numeric_coerce parse (Num n) = Num n"
  by (simp add: to_numeric_coerce_def)

lemma agg_columns_sub:
  "set (agg_columns t) \<subseteq> set (dtypes t)"
  "distinct (map fst (dtypes t)) \<Longrightarrow> distinct (map fst (agg_columns t))"
  by (auto simp: agg_columns_def distinct_map_filter)

lemma sum_split:
  "sum_list (map f (filter P xs))
   = (sum_list (map f (filter (\<lambda>x. P x \<and> Q x) xs)) :: int)
     + sum_list (map f (filter (\<lambda>x. P x \<and> \<not> Q x) xs))"
  by (induction xs) auto

lemma bin_cell_value:
  assumes ct: "createTable object_sum parse t = Inr (nations, inds)"
    and dist: "distinct (map fst (dtypes t))"
    and col: "(col, Float64) \<in> set (agg_columns t)"
    and br: "br \<in> set nations"
  shows "map_of (bin_cells br) col
         = Some (Num (sum_list (map (num_value col)
                   (filter (\<lambda>r. combined_bins r = Some (bin_bins br)) (observations t)))))"
proof -
  from createTable_Inr [OF ct] br obtain br0 where
    br0: "br0 \<in> set (bin_level object_sum t)"
    and eq: "br = br0\<lparr>bin_cells := coerce_col parse ''mt_haplos_sum''
                         (coerce_col parse ''y_haplos_sum'' (bin_cells br0))\<rparr>"
    by auto
  from br0 obtain b where b: "bin_bins br0 = b"
    and cells: "bin_cells br0 = map (\<lambda>(c, dt). (c, agg_sum object_sum dt c
                    (filter (\<lambda>r. combined_bins r = Some b) (observations t)))) (agg_columns t)"
    by (auto simp: bin_level_def)
  have "map_of (bin_cells br0) col
        = Some (agg_sum object_sum Float64 col (filter (\<lambda>r. combined_bins r = Some b) (observations t)))"
    unfolding cells by (rule map_of_computed [OF agg_columns_sub(2) [OF dist] col])
  then have "map_of (bin_cells br) col
        = Some (Num (sum_list (map (num_value col) (filter (\<lambda>r. combined_bins r = Some b) (observations t)))))"
    unfolding eq by (simp add: map_of_coerce_col agg_sum_def to_numeric_Num)
  moreover have "bin_bins br = b" using eq b by simp
  ultimately show ?thesis by simp
qed

lemma site_sum_value:
  assumes dist: "distinct (map fst (dtypes t))"
    and col: "(col, Float64) \<in> set (dtypes t)"
  shows "sum_list (map (site_value col) (filter (\<lambda>sr. site_bins sr = b) (site_level t)))
         = sum_list (map (num_value col)
             (filter (\<lambda>r. combined_bins r = Some b \<and> lat r \<noteq> None \<and> long r \<noteq> None)
                (observations t)))"
proof -
  let ?f = "num_value col"
  let ?ks = "filter (\<lambda>(la, lo, b'). b' = b) (site_keys t)"
  let ?mk = "\<lambda>(la, lo, b').
            \<lparr>site_lat = la, site_long = lo, site_bins = b',
             site_cells =
               map (\<lambda>(c, dt).
                      (c, custom_aggregate dt c
                              (filter (\<lambda>r. site_key r = Some (la, lo, b')) (observations t))))
                 (dtypes t)\<rparr>"
  have sel: "filter (\<lambda>sr. site_bins sr = b) (site_level t) = map ?mk ?ks"
    unfolding site_level_def filter_map
    by (rule arg_cong [where f = "map ?mk"], rule filter_cong) auto
  have val: "site_value col (?mk k) = sum_list (map ?f (filter (\<lambda>r. site_key r = Some k) (observations t)))"
    for k
  proof -
    obtain la lo b' where k: "k = (la, lo, b')" by (cases k) auto
    show ?thesis
      unfolding k site_value_def
      by (simp add: map_of_computed [OF dist col] custom_aggregate_def)
  qed
  have dk: "distinct ?ks" by (simp add: site_keys_distinct)
  have "sum_list (map (site_value col) (filter (\<lambda>sr. site_bins sr = b) (site_level t)))
        = sum_list (map (\<lambda>k. sum_list (map ?f (filter (\<lambda>r. site_key r = Some k) (observations t)))) ?ks)"
    unfolding sel map_map by (rule arg_cong [where f = sum_list], rule map_cong) (simp_all add: val)
  also have "\<dots> = sum_list (map ?f (filter (\<lambda>r. \<exists>k \<in> set ?ks. site_key r = Some k) (observations t)))"
    by (rule grouped_sum [OF dk])
  also have "filter (\<lambda>r. \<exists>k \<in> set ?ks. site_key r = Some k) (observations t)
      = filter (\<lambda>r. combined_bins r = Some b \<and> lat r \<noteq> None \<and> long r \<noteq> None) (observations t)"
    by (rule filter_cong) (auto simp: site_keys_set site_key_Some)
  finally show ?thesis .
qed

lemma sum_swap:
  "sum_list (map (\<lambda>l. sum_list (map (\<lambda>r. f l r) rs)) ls)
   = (sum_list (map (\<lambda>r. sum_list (map (\<lambda>l. f l r) ls)) rs) :: int)"
  by (induction ls) (simp_all add: sum_list_addf)

lemma letter_totals:
  assumes "distinct keep" and "[] \<notin> set keep"
  shows "sum_list (map (\<lambda>l. if k \<in> set keep \<and> take 1 k = [l] then 1 else 0) (starting_letters keep))
         = (if k \<in> set keep then (1::int) else 0)"
proof -
  let ?letters = "starting_letters keep"
  have dl: "distinct ?letters" by (simp add: starting_letters_def)
  have hdk: "k \<in> set keep \<Longrightarrow> hd k \<in> set ?letters \<and> k \<noteq> []"
  proof -
    assume a: "k \<in> set keep"
    then have ne: "k \<noteq> []" using assms(2) by auto
    then have "take 1 k = [hd k]" by (cases k) auto
    with a show ?thesis using ne by (force simp: starting_letters_def)
  qed
  have t1: "(take 1 k = [l]) = (k \<noteq> [] \<and> l = hd k)" for l by (cases k) auto
  have "sum_list (map (\<lambda>l. if k \<in> set keep \<and> take 1 k = [l] then 1 else 0) ?letters)
        = sum_list (map (\<lambda>l. if (k \<in> set keep \<and> k \<noteq> []) \<and> l = hd k then (1::int) else 0) ?letters)"
    by (simp only: t1 conj_assoc)
  also have "\<dots> = (if (k \<in> set keep \<and> k \<noteq> []) \<and> hd k \<in> set ?letters then 1 else 0)"
    by (rule sum_indicator [OF dl])
  also have "\<dots> = (if k \<in> set keep then 1 else 0)" using hdk by auto
  finally show ?thesis .
qed

lemma map_of_letter_cells:
  "distinct ls \<Longrightarrow> l \<in> set ls \<Longrightarrow>
   map_of (map (\<lambda>l. (l # suffix, v l)) ls @ rest) (l # suffix) = Some (v l)"
  by (induction ls) auto

lemma map_of_total_cell:
  "\<forall>l. total_name \<noteq> l # suffix \<Longrightarrow>
   map_of (map (\<lambda>l. (l # suffix, v l)) ls @ [(total_name, T)]) total_name = Some T"
  by (induction ls) auto

lemma site_value_group:
  assumes "sr \<in> set (site_level t)" and dist: "distinct (map fst (dtypes t))"
  shows "\<exists>G. set G \<subseteq> set (observations t) \<and>
     (\<forall>c. (c, Float64) \<in> set (dtypes t) \<longrightarrow> site_value c sr = sum_list (map (num_value c) G))"
proof -
  from assms(1) obtain la lo b where
    sr: "sr = \<lparr>site_lat = la, site_long = lo, site_bins = b,
               site_cells = map (\<lambda>(c, dt). (c, custom_aggregate dt c
                 (filter (\<lambda>r. site_key r = Some (la, lo, b)) (observations t)))) (dtypes t)\<rparr>"
    unfolding site_level_def by auto
  have cells: "site_cells sr = map (\<lambda>(c, dt). (c, custom_aggregate dt c
              (filter (\<lambda>r. site_key r = Some (la, lo, b)) (observations t)))) (dtypes t)"
    unfolding sr by simp
  let ?G = "filter (\<lambda>r. site_key r = Some (la, lo, b)) (observations t)"
  have "site_value c sr = sum_list (map (num_value c) ?G)" if "(c, Float64) \<in> set (dtypes t)" for c
    unfolding site_value_def cells
    by (simp add: map_of_computed [OF dist that] custom_aggregate_def)
  moreover have "set ?G \<subseteq> set (observations t)" by auto
  ultimately show ?thesis by blast
qed

lemma bin_value_group:
  assumes ct: "createTable object_sum parse t = Inr (nations, inds)"
    and dist: "distinct (map fst (dtypes t))"
    and br: "br \<in> set nations"
  shows "\<exists>G. set G \<subseteq> set (observations t) \<and>
     (\<forall>c. (c, Float64) \<in> set (agg_columns t) \<longrightarrow> bin_value c br = sum_list (map (num_value c) G))"
proof -
  let ?G = "filter (\<lambda>r. combined_bins r = Some (bin_bins br)) (observations t)"
  have "bin_value c br = sum_list (map (num_value c) ?G)" if "(c, Float64) \<in> set (agg_columns t)" for c
    unfolding bin_value_def by (simp add: bin_cell_value [OF ct dist that br])
  moreover have "set ?G \<subseteq> set (observations t)" by auto
  ultimately show ?thesis by blast
qed

lemma group_total:
  assumes "set G \<subseteq> set obs"
    and "\<forall>r \<in> set obs. num_value total_name r = sum_list (map (\<lambda>l. num_value (l # suffix) r) letters)"
  shows "sum_list (map (num_value total_name) G)
         = sum_list (map (\<lambda>l. sum_list (map (num_value (l # suffix)) G)) letters)"
proof -
  have "sum_list (map (num_value total_name) G)
        = sum_list (map (\<lambda>r. sum_list (map (\<lambda>l. num_value (l # suffix) r) letters)) G)"
    by (rule arg_cong [where f = sum_list], rule map_cong) (use assms in auto)
  also have "\<dots> = sum_list (map (\<lambda>l. sum_list (map (\<lambda>r. num_value (l # suffix) r) G)) letters)"
    by (rule sum_swap [symmetric])
  finally show ?thesis .
qed

lemma endswith_track:
  assumes "(suffix, total_name) = (''_y_sum'', ''y_haplos_sum'')
         \<or> (suffix, total_name) = (''_mt_sum'', ''mt_haplos_sum'')"
  shows "endswith ''_sum'' total_name" and "endswith ''_sum'' (l # suffix)"
    and "contains_str ''_sum'' suffix" and "\<forall>l. total_name \<noteq> l # suffix"
  using assms by (auto simp: endswith_def startswith_def)

lemma missing_age_label:
  "combined_bin None bin_size political_entity None = None"
  "combined_bin (Some ''nan'') bin_size (Some entity) None = Some (entity @ '' (nanBP)'')"
  by (simp_all add: combined_bin_def pd_cut_def astype_str_def split: option.splits)

lemma site_level_skip:
  assumes "combined_bins r = None"
  shows "site_level (t\<lparr>observations := xs @ r # ys\<rparr>) = site_level (t\<lparr>observations := xs @ ys\<rparr>)"
proof -
  have k: "site_key r = None" using assms by (simp add: site_key_def split: option.splits)
  have keys: "List.map_filter site_key (xs @ r # ys) = List.map_filter site_key (xs @ ys)"
    using k by (simp add: List.map_filter_def)
  have grp: "filter (\<lambda>r'. site_key r' = Some key) (xs @ r # ys)
             = filter (\<lambda>r'. site_key r' = Some key) (xs @ ys)" for key
    using k by simp
  show ?thesis
    unfolding site_level_def site_keys_def by (simp add: keys grp del: filter_append filter.simps)
qed

lemma bin_level_skip:
  assumes "combined_bins r = None"
  shows "bin_level object_sum (t\<lparr>observations := xs @ r # ys\<rparr>)
         = bin_level object_sum (t\<lparr>observations := xs @ ys\<rparr>)"
proof -
  have keys: "List.map_filter combined_bins (xs @ r # ys) = List.map_filter combined_bins (xs @ ys)"
    using assms by (simp add: List.map_filter_def)
  have grp: "filter (\<lambda>r'. combined_bins r' = Some b) (xs @ r # ys)
             = filter (\<lambda>r'. combined_bins r' = Some b) (xs @ ys)" for b
    using assms by simp
  have agg: "agg_columns (t\<lparr>observations := zs\<rparr>) = agg_columns t" for zs
    by (simp add: agg_columns_def)
  show ?thesis
    unfolding bin_level_def bin_keys_def by (simp add: keys grp agg del: filter_append filter.simps)
qed

lemma createTable_skip:
  assumes "combined_bins r = None"
  shows "createTable object_sum parse (t\<lparr>observations := xs @ r # ys\<rparr>)
         = createTable object_sum parse (t\<lparr>observations := xs @ ys\<rparr>)"
proof -
  have agg: "agg_columns (t\<lparr>observations := zs\<rparr>) = agg_columns t" for zs
    by (simp add: agg_columns_def)
  show ?thesis
    unfolding createTable_def Let_def site_level_skip [OF assms] bin_level_skip [OF assms] agg ..
qed

text \<open>
  C3. Under the current pandas release (a missing category stays missing under
  \<open>astype('str')\<close>: \<open>na_repr = None\<close>), a record whose age is missing keeps its row in
  the table that \<open>create_bins\<close> returns and gets no bin key: its \<open>CombinedBins\<close> is
  missing. Both aggregation levels are what they would be without the record: it is in no
  site-level row and in no bin-level row, and no bin key exists for it.
\<close>

theorem unresolved_age_has_no_bin:
  assumes bins: "create_bins None df bin_choice = Inr col"
    and i: "i < length df"
    and age: "snd (df ! i) = None"
    and tab: "map combined_bins (observations t) = col"
  shows "length col = length df \<and> col ! i = None
       \<and> createTable object_sum parse
           (t\<lparr>observations := take i (observations t) @ drop (Suc i) (observations t)\<rparr>)
         = createTable object_sum parse t"
proof -
  from bins have col: "col = map (\<lambda>(political_entity, date_mean).
                       combined_bin None bin_choice political_entity date_mean) df"
    by (simp add: create_bins_def split: if_splits)
  have len: "length col = length df" by (simp add: col)
  obtain pe a where d: "df ! i = (pe, a)" by (cases "df ! i") auto
  with age have "a = None" by simp
  with d i have none: "col ! i = None" by (simp add: col missing_age_label)
  have li: "i < length (observations t)" using tab len i by (metis length_map)
  then have r: "combined_bins (observations t ! i) = None"
    using tab none by (metis nth_map)
  have split: "observations t = take i (observations t) @ observations t ! i # drop (Suc i) (observations t)"
    using li by (rule id_take_nth_drop)
  have "createTable object_sum parse
           (t\<lparr>observations := take i (observations t) @ observations t ! i # drop (Suc i) (observations t)\<rparr>)
        = createTable object_sum parse
           (t\<lparr>observations := take i (observations t) @ drop (Suc i) (observations t)\<rparr>)"
    by (rule createTable_skip [OF r])
  moreover have "t\<lparr>observations := take i (observations t) @ observations t ! i # drop (Suc i) (observations t)\<rparr> = t"
    using split by simp
  ultimately show ?thesis using len none by simp
qed

theorem unresolved_age_has_no_bin_witness:
  "createTable concat_strings parse_decimal
     \<lparr>dtypes = [(''R_y_sum'', Float64), (''y_haplos_sum'', Float64), (''mt_haplos_sum'', Float64)],
      observations =
        [\<lparr>lat = Some (10::int), long = Some 20, combined_bins = Some ''Sweden (0-39999BP)'',
          num_cells = [(''R_y_sum'', 1), (''y_haplos_sum'', 1)], obj_cells = []\<rparr>]\<rparr>
   = createTable concat_strings parse_decimal
     \<lparr>dtypes = [(''R_y_sum'', Float64), (''y_haplos_sum'', Float64), (''mt_haplos_sum'', Float64)],
      observations =
        [\<lparr>lat = Some (10::int), long = Some 20, combined_bins = Some ''Sweden (0-39999BP)'',
          num_cells = [(''R_y_sum'', 1), (''y_haplos_sum'', 1)], obj_cells = []\<rparr>,
         \<lparr>lat = Some 10, long = Some 20, combined_bins = None,
          num_cells = [(''R_y_sum'', 1), (''y_haplos_sum'', 1)], obj_cells = []\<rparr>]\<rparr>"
proof -
  let ?t = "\<lparr>dtypes = [(''R_y_sum'', Float64), (''y_haplos_sum'', Float64), (''mt_haplos_sum'', Float64)],
      observations =
        [\<lparr>lat = Some (10::int), long = Some 20, combined_bins = Some ''Sweden (0-39999BP)'',
          num_cells = [(''R_y_sum'', 1), (''y_haplos_sum'', 1)], obj_cells = []\<rparr>,
         \<lparr>lat = Some 10, long = Some 20, combined_bins = None,
          num_cells = [(''R_y_sum'', 1), (''y_haplos_sum'', 1)], obj_cells = []\<rparr>]\<rparr>"
  have bins: "create_bins None [(Some ''Sweden'', Some 500), (Some ''Sweden'', None)] 40000
              = Inr [Some ''Sweden (0-39999BP)'', None]"
    by code_simp
  have i: "(1::nat) < length [(Some ''Sweden'', Some (500::int)), (Some ''Sweden'', None)]" by simp
  have age: "snd ([(Some ''Sweden'', Some (500::int)), (Some ''Sweden'', None)] ! 1) = None" by simp
  have tab: "map combined_bins (observations ?t) = [Some ''Sweden (0-39999BP)'', None]" by simp
  from unresolved_age_has_no_bin [OF bins i age tab, of concat_strings parse_decimal]
  show ?thesis by simp
qed

text \<open>Under the pandas releases before 3 the missing category is printed as \<open>nan\<close>, and
  the record gets the key of a bin \<open>(nanBP)\<close>.\<close>

lemma missing_age_label_before_pandas_3:
  "create_bins (Some ''nan'') [(Some ''Sweden'', None)] 40000 = Inr [Some ''Sweden (nanBP)'']"
  by code_simp

text \<open>
  C4 (as the code has it). Both levels are aggregated from the merged table, not one from
  the other. For every bin-level row and every \<open>float64\<close> column of \<open>agg_dict\<close> (the
  per-letter sums and the totals), the bin-level value is the sum of that column over the
  site-level rows of that bin plus the sum over the records of that bin that lack a
  latitude or a longitude, which the site-level grouping drops. When every record of the
  bin has both coordinates, the bin-level value is the sum over the site-level rows.
\<close>

theorem bin_value_is_site_sum:
  assumes ct: "createTable object_sum parse t = Inr (nations, inds)"
    and dist: "distinct (map fst (dtypes t))"
    and col: "(col, Float64) \<in> set (agg_columns t)"
    and br: "br \<in> set nations"
  shows "map_of (bin_cells br) col
         = Some (Num (sum_list (map (site_value col) (filter (\<lambda>sr. site_bins sr = bin_bins br) inds))
             + sum_list (map (num_value col)
                 (filter (\<lambda>r. combined_bins r = Some (bin_bins br) \<and> (lat r = None \<or> long r = None))
                    (observations t)))))
       \<and> ((\<forall>r \<in> set (observations t). combined_bins r = Some (bin_bins br)
              \<longrightarrow> lat r \<noteq> None \<and> long r \<noteq> None)
           \<longrightarrow> map_of (bin_cells br) col
               = Some (Num (sum_list (map (site_value col)
                              (filter (\<lambda>sr. site_bins sr = bin_bins br) inds)))))"
proof -
  let ?b = "bin_bins br"
  let ?f = "num_value col"
  have inds: "inds = site_level t" using createTable_Inr [OF ct] by simp
  have col': "(col, Float64) \<in> set (dtypes t)" using col agg_columns_sub(1) by auto
  have whole: "map_of (bin_cells br) col
      = Some (Num (sum_list (map ?f (filter (\<lambda>r. combined_bins r = Some ?b) (observations t)))))"
    by (rule bin_cell_value [OF ct dist col br])
  have part: "sum_list (map ?f (filter (\<lambda>r. combined_bins r = Some ?b) (observations t)))
      = sum_list (map ?f (filter (\<lambda>r. combined_bins r = Some ?b \<and> (lat r \<noteq> None \<and> long r \<noteq> None)) (observations t)))
        + sum_list (map ?f (filter (\<lambda>r. combined_bins r = Some ?b \<and> \<not> (lat r \<noteq> None \<and> long r \<noteq> None)) (observations t)))"
    by (rule sum_split)
  have site: "sum_list (map (site_value col) (filter (\<lambda>sr. site_bins sr = ?b) inds))
      = sum_list (map ?f (filter (\<lambda>r. combined_bins r = Some ?b \<and> lat r \<noteq> None \<and> long r \<noteq> None) (observations t)))"
    unfolding inds by (rule site_sum_value [OF dist col'])
  have first: "map_of (bin_cells br) col
         = Some (Num (sum_list (map (site_value col) (filter (\<lambda>sr. site_bins sr = ?b) inds))
             + sum_list (map ?f
                 (filter (\<lambda>r. combined_bins r = Some ?b \<and> (lat r = None \<or> long r = None))
                    (observations t)))))"
    unfolding whole part site by simp
  have none: "filter (\<lambda>r. combined_bins r = Some ?b \<and> (lat r = None \<or> long r = None)) (observations t) = []"
    if "\<forall>r \<in> set (observations t). combined_bins r = Some ?b \<longrightarrow> lat r \<noteq> None \<and> long r \<noteq> None"
    using that by (auto simp: filter_empty_conv)
  show ?thesis using first none by auto
qed

theorem bin_value_is_site_sum_witness:
  "map_of [(''I_y_sum'', Num 1), (''R_y_sum'', Num 1), (''y_haplos_sum'', Num 2),
           (''H_mt_sum'', Num 2), (''mt_haplos_sum'', Num 2)] ''H_mt_sum''
   = Some (Num (sum_list (map (site_value ''H_mt_sum'')
                  (filter (\<lambda>sr. site_bins sr = ''Sweden (0-49999BP)'') (site_level sweden_table)))))"
proof -
  let ?br = "\<lparr>bin_bins = ''Sweden (0-49999BP)'',
         bin_cells = [(''I_y_sum'', Num 1), (''R_y_sum'', Num 1), (''y_haplos_sum'', Num 2),
                      (''H_mt_sum'', Num 2), (''mt_haplos_sum'', Num 2)]\<rparr>"
  have ct: "createTable concat_strings parse_decimal sweden_table = Inr ([?br], site_level sweden_table)"
    by code_simp
  have dist: "distinct (map fst (dtypes sweden_table))"
    by (simp add: sweden_table_def)
  have col: "(''H_mt_sum'', Float64) \<in> set (agg_columns sweden_table)"
    by (simp add: sweden_table_def agg_columns_def endswith_def)
  have br: "?br \<in> set [?br]" by simp
  have coords: "\<forall>r \<in> set (observations sweden_table).
      combined_bins r = Some (bin_bins ?br) \<longrightarrow> lat r \<noteq> None \<and> long r \<noteq> None"
    by (simp add: sweden_table_def)
  from bin_value_is_site_sum [OF ct dist col br] coords show ?thesis by simp
qed

text \<open>C4 as the specification states it fails: a record without latitude is in no
  site-level row, and the bin-level row of its bin still counts it.\<close>

theorem missing_coordinate_counterexample:
  "createTable concat_strings parse_decimal
     \<lparr>dtypes = [(''R_y_sum'', Float64), (''y_haplos_sum'', Float64), (''mt_haplos_sum'', Float64)],
      observations =
        [\<lparr>lat = None, long = Some (20::int), combined_bins = Some ''Sweden (0-49999BP)'',
          num_cells = [(''R_y_sum'', 1), (''y_haplos_sum'', 1)], obj_cells = []\<rparr>]\<rparr>
   = Inr ([\<lparr>bin_bins = ''Sweden (0-49999BP)'',
            bin_cells = [(''R_y_sum'', Num 1), (''y_haplos_sum'', Num 1), (''mt_haplos_sum'', Num 0)]\<rparr>],
          [])"
  by code_simp

text \<open>
  C5 (as the code has it). Take either track, a column of keys with no empty key and no
  key that contains \<open>_sum\<close>, and a merged table whose rows each carry, in the columns of
  that track, the cells of one encoded record or no cell at all (an outer join without
  partner). Then in every site-level row and in every bin-level row the total of the
  track is the sum of the per-letter sums of the track.
\<close>

theorem track_total_is_letter_sum:
  assumes track: "(suffix, total_name) = (''_y_sum'', ''y_haplos_sum'')
                \<or> (suffix, total_name) = (''_mt_sum'', ''mt_haplos_sum'')"
    and keys: "\<forall>key \<in> set series. key \<noteq> [] \<and> \<not> contains_str ''_sum'' key"
    and enc: "encode_track suffix total_name series = Inr encoded"
    and letters: "letters = starting_letters (filter retained (dummy_columns series))"
    and dist: "distinct (map fst (dtypes t))"
    and floats: "\<forall>c \<in> set (total_name # map (\<lambda>l. l # suffix) letters). (c, Float64) \<in> set (dtypes t)"
    and rows: "\<forall>r \<in> set (observations t). \<exists>cells \<in> insert [] (set encoded).
                 \<forall>c \<in> set (total_name # map (\<lambda>l. l # suffix) letters).
                   map_of (num_cells r) c = map_of cells c"
    and ct: "createTable object_sum parse t = Inr (nations, inds)"
  shows "(\<forall>sr \<in> set inds.
            site_value total_name sr = sum_list (map (\<lambda>l. site_value (l # suffix) sr) letters))
       \<and> (\<forall>br \<in> set nations.
            bin_value total_name br = sum_list (map (\<lambda>l. bin_value (l # suffix) br) letters))"
proof -
  let ?keep = "filter retained (dummy_columns series)"
  note tr = endswith_track [OF track]
  have shape: "encoded = map (\<lambda>key.
            map (\<lambda>l. (l # suffix, if retained key \<and> take 1 key = [l] then 1 else 0)) letters
            @ [(total_name, if retained key then 1 else 0)]) series"
    using enc unfolding letters encode_track_shape [OF keys tr(3) tr(4)] by simp
  have dl: "distinct letters" unfolding letters by (simp add: starting_letters_def)
  have dk: "distinct ?keep" and nk: "[] \<notin> set ?keep"
    using keys by (auto simp: dummy_columns_set)
  have inv: "num_value total_name r = sum_list (map (\<lambda>l. num_value (l # suffix) r) letters)"
    if r: "r \<in> set (observations t)" for r
  proof -
    from rows r obtain cells where c: "cells \<in> insert [] (set encoded)"
      and eq: "\<forall>c \<in> set (total_name # map (\<lambda>l. l # suffix) letters).
                 map_of (num_cells r) c = map_of cells c"
      by blast
    show ?thesis
    proof (cases "cells = []")
      case True
      then have "num_value c r = 0" if "c \<in> set (total_name # map (\<lambda>l. l # suffix) letters)" for c
        using eq that by (auto simp: num_value_def)
      then have t: "num_value total_name r = 0"
        and l: "\<And>l. l \<in> set letters \<Longrightarrow> num_value (l # suffix) r = 0"
        by auto
      have "sum_list (map (\<lambda>l. num_value (l # suffix) r) letters) = sum_list (map (\<lambda>l. 0) letters)"
        by (rule arg_cong [where f = sum_list], rule map_cong) (simp_all add: l)
      then show ?thesis using t by simp
    next
      case False
      with c shape obtain key where key: "key \<in> set series"
        and cells: "cells = map (\<lambda>l. (l # suffix, if retained key \<and> take 1 key = [l] then 1 else 0)) letters
            @ [(total_name, if retained key then 1 else 0)]"
        by auto
      have m: "(key \<in> set ?keep) = retained key" using key by (simp add: dummy_columns_set)
      have "map_of (num_cells r) total_name = map_of cells total_name"
        using eq by simp
      also have "\<dots> = Some (if retained key then 1 else 0)"
        unfolding cells by (rule map_of_total_cell [OF tr(4)])
      finally have t: "num_value total_name r = (if retained key then 1 else 0)"
        by (simp add: num_value_def)
      have l: "num_value (l # suffix) r = (if retained key \<and> take 1 key = [l] then 1 else 0)"
        if "l \<in> set letters" for l
      proof -
        have "map_of (num_cells r) (l # suffix) = map_of cells (l # suffix)"
          using eq that by simp
        also have "\<dots> = Some (if retained key \<and> take 1 key = [l] then 1 else 0)"
          unfolding cells by (rule map_of_letter_cells [OF dl that])
        finally show ?thesis by (simp add: num_value_def)
      qed
      have "sum_list (map (\<lambda>l. num_value (l # suffix) r) letters)
            = sum_list (map (\<lambda>l. if retained key \<and> take 1 key = [l] then 1 else 0) letters)"
        by (rule arg_cong [where f = sum_list], rule map_cong) (simp_all add: l)
      also have "\<dots> = (if retained key then 1 else 0)"
        using letter_totals [OF dk nk, of key] unfolding m letters .
      finally show ?thesis using t by simp
    qed
  qed
  have fl_site: "(c, Float64) \<in> set (dtypes t)"
    if "c \<in> set (total_name # map (\<lambda>l. l # suffix) letters)" for c
    using floats that by blast
  have fl_bin: "(c, Float64) \<in> set (agg_columns t)"
    if "c \<in> set (total_name # map (\<lambda>l. l # suffix) letters)" for c
  proof -
    have "endswith ''_sum'' c" using that tr(1,2) by auto
    then show ?thesis using fl_site [OF that] by (simp add: agg_columns_def)
  qed
  have site: "site_value total_name sr = sum_list (map (\<lambda>l. site_value (l # suffix) sr) letters)"
    if "sr \<in> set inds" for sr
  proof -
    from that createTable_Inr [OF ct] have "sr \<in> set (site_level t)" by simp
    from site_value_group [OF this dist] obtain G where G: "set G \<subseteq> set (observations t)"
      and v: "\<And>c. (c, Float64) \<in> set (dtypes t) \<Longrightarrow> site_value c sr = sum_list (map (num_value c) G)"
      by blast
    have "site_value total_name sr = sum_list (map (num_value total_name) G)"
      by (rule v, rule fl_site) simp
    also have "\<dots> = sum_list (map (\<lambda>l. sum_list (map (num_value (l # suffix)) G)) letters)"
      by (rule group_total [OF G]) (use inv in blast)
    also have "\<dots> = sum_list (map (\<lambda>l. site_value (l # suffix) sr) letters)"
      by (rule arg_cong [where f = sum_list], rule map_cong) (simp_all add: v fl_site)
    finally show ?thesis .
  qed
  have bin: "bin_value total_name br = sum_list (map (\<lambda>l. bin_value (l # suffix) br) letters)"
    if "br \<in> set nations" for br
  proof -
    from bin_value_group [OF ct dist that] obtain G where G: "set G \<subseteq> set (observations t)"
      and v: "\<And>c. (c, Float64) \<in> set (agg_columns t) \<Longrightarrow> bin_value c br = sum_list (map (num_value c) G)"
      by blast
    have "bin_value total_name br = sum_list (map (num_value total_name) G)"
      by (rule v, rule fl_bin) simp
    also have "\<dots> = sum_list (map (\<lambda>l. sum_list (map (num_value (l # suffix)) G)) letters)"
      by (rule group_total [OF G]) (use inv in blast)
    also have "\<dots> = sum_list (map (\<lambda>l. bin_value (l # suffix) br) letters)"
      by (rule arg_cong [where f = sum_list], rule map_cong) (simp_all add: v fl_bin)
    finally show ?thesis .
  qed
  show ?thesis using site bin by blast
qed

theorem track_total_is_letter_sum_witness:
  "site_value ''y_haplos_sum''
     \<lparr>site_lat = (10::int), site_long = 20, site_bins = ''Sweden (0-49999BP)'',
      site_cells = [(''Master ID'', Str ''a1''), (''I_y_sum'', Num 1), (''R_y_sum'', Num 1),
                    (''y_haplos_sum'', Num 2), (''H_mt_sum'', Num 2), (''mt_haplos_sum'', Num 2)]\<rparr>
   = sum_list (map (\<lambda>l. site_value (l # ''_y_sum'')
       \<lparr>site_lat = (10::int), site_long = 20, site_bins = ''Sweden (0-49999BP)'',
        site_cells = [(''Master ID'', Str ''a1''), (''I_y_sum'', Num 1), (''R_y_sum'', Num 1),
                      (''y_haplos_sum'', Num 2), (''H_mt_sum'', Num 2), (''mt_haplos_sum'', Num 2)]\<rparr>) ''IR'')"
proof -
  let ?sr = "\<lparr>site_lat = (10::int), site_long = 20, site_bins = ''Sweden (0-49999BP)'',
      site_cells = [(''Master ID'', Str ''a1''), (''I_y_sum'', Num 1), (''R_y_sum'', Num 1),
                    (''y_haplos_sum'', Num 2), (''H_mt_sum'', Num 2), (''mt_haplos_sum'', Num 2)]\<rparr>"
  let ?sr2 = "\<lparr>site_lat = (11::int), site_long = 20, site_bins = ''Sweden (0-49999BP)'',
      site_cells = [(''Master ID'', Str ''a3''), (''I_y_sum'', Num 0), (''R_y_sum'', Num 0),
                    (''y_haplos_sum'', Num 0), (''H_mt_sum'', Num 0), (''mt_haplos_sum'', Num 0)]\<rparr>"
  let ?br = "\<lparr>bin_bins = ''Sweden (0-49999BP)'',
         bin_cells = [(''I_y_sum'', Num 1), (''R_y_sum'', Num 1), (''y_haplos_sum'', Num 2),
                      (''H_mt_sum'', Num 2), (''mt_haplos_sum'', Num 2)]\<rparr>"
  let ?enc = "[[(''I_y_sum'', 0), (''R_y_sum'', 1), (''y_haplos_sum'', 1)],
      [(''I_y_sum'', 1), (''R_y_sum'', 0), (''y_haplos_sum'', 1)],
      [(''I_y_sum'', 0), (''R_y_sum'', 0), (''y_haplos_sum'', 0::int)]]"
  have track: "(''_y_sum'', ''y_haplos_sum'') = (''_y_sum'', ''y_haplos_sum'')
             \<or> (''_y_sum'', ''y_haplos_sum'') = (''_mt_sum'', ''mt_haplos_sum'')" by simp
  have keys: "\<forall>key \<in> set [''R'', ''I'', ''n/a'']. key \<noteq> [] \<and> \<not> contains_str ''_sum'' key"
    by (simp add: startswith_def)
  have enc: "encode_track ''_y_sum'' ''y_haplos_sum'' [''R'', ''I'', ''n/a''] = Inr ?enc"
    by code_simp
  have letters: "''IR'' = starting_letters (filter retained (dummy_columns [''R'', ''I'', ''n/a'']))"
    by code_simp
  have dist: "distinct (map fst (dtypes sweden_table))"
    by (simp add: sweden_table_def)
  have floats: "\<forall>c \<in> set (''y_haplos_sum'' # map (\<lambda>l. l # ''_y_sum'') ''IR'').
                  (c, Float64) \<in> set (dtypes sweden_table)"
    by (simp add: sweden_table_def)
  have rows: "\<forall>r \<in> set (observations sweden_table). \<exists>cells \<in> insert [] (set ?enc).
                 \<forall>c \<in> set (''y_haplos_sum'' # map (\<lambda>l. l # ''_y_sum'') ''IR'').
                   map_of (num_cells r) c = map_of cells c"
    by (simp add: sweden_table_def)
  have ct: "createTable concat_strings parse_decimal sweden_table = Inr ([?br], [?sr, ?sr2])"
    by code_simp
  from track_total_is_letter_sum [OF track keys enc letters dist floats rows ct]
  show ?thesis by simp
qed

text \<open>C5 as the specification states it fails: with the key \<open>R_sum\<close> the Y total of the
  row is 2 at both levels, and the only per-letter sum, \<open>R_y_sum\<close>, is 1.\<close>

theorem total_exceeds_letters_counterexample:
  "encode_track ''_y_sum'' ''y_haplos_sum'' [''R_sum'']
     = Inr [[(''R_sum'', 1), (''R_y_sum'', 1), (''y_haplos_sum'', 2)]]
   \<and> createTable concat_strings parse_decimal
     \<lparr>dtypes = [(''R_sum'', Float64), (''R_y_sum'', Float64), (''y_haplos_sum'', Float64),
                (''mt_haplos_sum'', Float64)],
      observations =
        [\<lparr>lat = Some (10::int), long = Some 20, combined_bins = Some ''Sweden (0-49999BP)'',
          num_cells = [(''R_sum'', 1), (''R_y_sum'', 1), (''y_haplos_sum'', 2)], obj_cells = []\<rparr>]\<rparr>
   = Inr ([\<lparr>bin_bins = ''Sweden (0-49999BP)'',
            bin_cells = [(''R_sum'', Num 1), (''R_y_sum'', Num 1), (''y_haplos_sum'', Num 2),
                         (''mt_haplos_sum'', Num 0)]\<rparr>],
          [\<lparr>site_lat = 10, site_long = 20, site_bins = ''Sweden (0-49999BP)'',
            site_cells = [(''R_sum'', Num 1), (''R_y_sum'', Num 1), (''y_haplos_sum'', Num 2),
                          (''mt_haplos_sum'', Num 0)]\<rparr>])"
  by code_simp

text \<open>
  C7 (as the code has it). \<open>createTable\<close> returns the site-level table as aggregated,
  with no coercion: a total column holds what \<open>custom_aggregate\<close> made of it. Only in
  the bin-level table are the two total columns passed through \<open>pd.to_numeric\<close>, and
  there a value that fails coercion becomes the missing value, not zero.
\<close>

theorem totals_coercion:
  assumes ct: "createTable object_sum parse t = Inr (nations, inds)"
    and dist: "distinct (map fst (dtypes t))"
    and col: "col = ''y_haplos_sum'' \<or> col = ''mt_haplos_sum''"
    and dt: "(col, dt) \<in> set (agg_columns t)"
  shows "inds = site_level t
     \<and> (\<forall>sr \<in> set inds.
          map_of (site_cells sr) col
          = Some (custom_aggregate dt col
                   (filter (\<lambda>r. site_key r = Some (site_lat sr, site_long sr, site_bins sr))
                      (observations t))))
     \<and> (\<forall>br \<in> set nations.
          map_of (bin_cells br) col
          = Some (to_numeric_coerce parse
                   (agg_sum object_sum dt col
                      (filter (\<lambda>r. combined_bins r = Some (bin_bins br)) (observations t))))
          \<and> (\<forall>s. agg_sum object_sum dt col
                      (filter (\<lambda>r. combined_bins r = Some (bin_bins br)) (observations t)) = Str s
                   \<and> parse s = None
                \<longrightarrow> map_of (bin_cells br) col = Some NA))"
proof -
  have inds: "inds = site_level t" using createTable_Inr [OF ct] by simp
  have dt': "(col, dt) \<in> set (dtypes t)" using dt agg_columns_sub(1) by auto
  have site: "map_of (site_cells sr) col
          = Some (custom_aggregate dt col
                   (filter (\<lambda>r. site_key r = Some (site_lat sr, site_long sr, site_bins sr))
                      (observations t)))"
    if "sr \<in> set inds" for sr
  proof -
    from that inds obtain la lo b where
      sr: "sr = \<lparr>site_lat = la, site_long = lo, site_bins = b,
               site_cells = map (\<lambda>(c, dt). (c, custom_aggregate dt c
                 (filter (\<lambda>r. site_key r = Some (la, lo, b)) (observations t)))) (dtypes t)\<rparr>"
      unfolding site_level_def by auto
    show ?thesis unfolding sr by (simp add: map_of_computed [OF dist dt'])
  qed
  have bin: "map_of (bin_cells br) col
          = Some (to_numeric_coerce parse
                   (agg_sum object_sum dt col
                      (filter (\<lambda>r. combined_bins r = Some (bin_bins br)) (observations t))))"
    if "br \<in> set nations" for br
  proof -
    from createTable_Inr [OF ct] that obtain br0 where
      br0: "br0 \<in> set (bin_level object_sum t)"
      and eq: "br = br0\<lparr>bin_cells := coerce_col parse ''mt_haplos_sum''
                         (coerce_col parse ''y_haplos_sum'' (bin_cells br0))\<rparr>"
      by auto
    from br0 obtain b where b: "bin_bins br0 = b"
      and cells: "bin_cells br0 = map (\<lambda>(c, dt). (c, agg_sum object_sum dt c
                    (filter (\<lambda>r. combined_bins r = Some b) (observations t)))) (agg_columns t)"
      by (auto simp: bin_level_def)
    have "map_of (bin_cells br0) col
        = Some (agg_sum object_sum dt col (filter (\<lambda>r. combined_bins r = Some b) (observations t)))"
      unfolding cells by (rule map_of_computed [OF agg_columns_sub(2) [OF dist] dt])
    then have "map_of (bin_cells br) col
        = Some (to_numeric_coerce parse
                  (agg_sum object_sum dt col (filter (\<lambda>r. combined_bins r = Some b) (observations t))))"
      unfolding eq using col by (auto simp: map_of_coerce_col)
    moreover have "bin_bins br = b" using eq b by simp
    ultimately show ?thesis by simp
  qed
  have fail: "to_numeric_coerce parse (Str s) = NA" if "parse s = None" for s
    using that by (simp add: to_numeric_coerce_def)
  show ?thesis using inds site bin fail by auto
qed

text \<open>C7 as the specification states it fails: with an \<open>object\<close> total column that
  holds \<open>abc\<close>, the site-level total is the string \<open>abc\<close> and the bin-level total is
  missing; neither is zero.\<close>

theorem uncoerced_total_counterexample:
  "createTable concat_strings parse_decimal residue_table
   = Inr ([\<lparr>bin_bins = ''Sweden (0-49999BP)'',
            bin_cells = [(''y_haplos_sum'', NA), (''mt_haplos_sum'', Num 1)]\<rparr>],
          [\<lparr>site_lat = 10, site_long = 20, site_bins = ''Sweden (0-49999BP)'',
            site_cells = [(''y_haplos_sum'', Str ''abc''), (''mt_haplos_sum'', Num 1)]\<rparr>])
   \<and> parse_decimal ''abc'' = None"
  by code_simp

theorem totals_coercion_witness:
  "map_of [(''y_haplos_sum'', NA), (''mt_haplos_sum'', Num 1)] ''y_haplos_sum'' = Some NA
   \<and> map_of [(''y_haplos_sum'', Str ''abc''), (''mt_haplos_sum'', Num 1)] ''y_haplos_sum''
     = Some (custom_aggregate Object ''y_haplos_sum''
              (filter (\<lambda>r. site_key r = Some (10, 20, ''Sweden (0-49999BP)''))
                 (observations residue_table)))"
proof -
  let ?br = "\<lparr>bin_bins = ''Sweden (0-49999BP)'',
            bin_cells = [(''y_haplos_sum'', NA), (''mt_haplos_sum'', Num 1)]\<rparr>"
  let ?sr = "\<lparr>site_lat = (10::int), site_long = 20, site_bins = ''Sweden (0-49999BP)'',
            site_cells = [(''y_haplos_sum'', Str ''abc''), (''mt_haplos_sum'', Num 1)]\<rparr>"
  have ct: "createTable concat_strings parse_decimal residue_table = Inr ([?br], [?sr])"
    by code_simp
  have dist: "distinct (map fst (dtypes residue_table))"
    by (simp add: residue_table_def)
  have col: "''y_haplos_sum'' = ''y_haplos_sum'' \<or> ''y_haplos_sum'' = ''mt_haplos_sum''" by simp
  have dt: "(''y_haplos_sum'', Object) \<in> set (agg_columns residue_table)"
    by (simp add: residue_table_def agg_columns_def endswith_def)
  have s: "agg_sum concat_strings Object ''y_haplos_sum''
             (filter (\<lambda>r. combined_bins r = Some (bin_bins ?br)) (observations residue_table)) = Str ''abc''"
    by code_simp
  have p: "parse_decimal ''abc'' = None" by code_simp
  from totals_coercion [OF ct dist col dt] s p show ?thesis by simp
qed
section \<open>Properties of the merged pipeline\<close>

lemma filter_key_unique:
  "distinct ks \<Longrightarrow> length ms = length ks \<Longrightarrow> i < length ks \<Longrightarrow>
   filter (\<lambda>(k', r). k' = ks ! i) (zip ks ms) = [(ks ! i, ms ! i)]"
proof (induction ks arbitrary: ms i)
  case Nil
  then show ?case by simp
next
  case (Cons k ks)
  then obtain m ms' where ms: "ms = m # ms'" by (cases ms) auto
  have none: "filter (\<lambda>(k', r). k' = k) (zip ks ms') = []"
    using Cons.prems(1) by (auto simp: filter_empty_conv dest: set_zip_leftD)
  show ?case
  proof (cases i)
    case 0
    then show ?thesis using none by (simp add: ms)
  next
    case (Suc j)
    then have j: "j < length ks" using Cons.prems(3) by simp
    have ne: "k \<noteq> ks ! j" using Cons.prems(1) j by auto
    have "filter (\<lambda>(k', r). k' = ks ! j) (zip ks ms') = [(ks ! j, ms' ! j)]"
      by (rule Cons.IH) (use Cons.prems ms j in auto)
    then show ?thesis using ne by (simp add: ms Suc)
  qed
qed

lemma merge_outer_unique:
  assumes d: "distinct ks" and ly: "length ys = length ks" and lm: "length ms = length ks"
  shows "merge_outer (zip ks ys) (zip ks ms)
         = map (\<lambda>i. (ks ! i, ys ! i @ ms ! i)) [0..<length ks]"
proof -
  let ?L = "zip ks ys" and ?R = "zip ks ms"
  let ?g = "\<lambda>(k, l). case filter (\<lambda>(k', r). k' = k) ?R of
                                [] \<Rightarrow> [(k, l)]
                              | m # ms \<Rightarrow> map (\<lambda>(k', r). (k, l @ r)) (m # ms)"
  have lenL: "length ?L = length ks" using ly by simp
  have g: "?g (?L ! i) = [(ks ! i, ys ! i @ ms ! i)]" if "i < length ks" for i
    using that ly by (simp add: filter_key_unique [OF d lm that])
  have "map ?g ?L = map ?g (map (\<lambda>i. ?L ! i) [0..<length ?L])"
    by (simp only: map_nth)
  also have "\<dots> = map (\<lambda>i. ?g (?L ! i)) [0..<length ks]"
    by (simp only: map_map comp_def lenL)
  also have "\<dots> = map (\<lambda>i. [(ks ! i, ys ! i @ ms ! i)]) [0..<length ks]"
    by (rule map_cong [OF refl]) (simp add: g)
  finally have "concat (map ?g ?L) = map (\<lambda>i. (ks ! i, ys ! i @ ms ! i)) [0..<length ks]"
    by simp
  moreover have "filter (\<lambda>(k', r). \<not> list_ex (\<lambda>(k, l). k = k') ?L) ?R = []"
  proof -
    have "list_ex (\<lambda>(k, l). k = k') ?L" if "(k', r) \<in> set ?R" for k' r
    proof -
      from that have "k' \<in> set ks" by (rule set_zip_leftD)
      then obtain i where i: "i < length ks" "k' = ks ! i" by (auto simp: in_set_conv_nth)
      then have "(k', ys ! i) \<in> set ?L" using ly by (auto simp: set_zip)
      then show ?thesis by (auto simp: list_ex_iff)
    qed
    then show ?thesis by (auto simp: filter_empty_conv)
  qed
  ultimately show ?thesis unfolding merge_outer_def by simp
qed

lemma sum_filter_mset:
  "mset xs = mset ys \<Longrightarrow>
   sum_list (map f (filter P xs)) = (sum_list (map f (filter P ys)) :: int)"
proof -
  assume a: "mset xs = mset ys"
  have "sum_list (map f (filter P zs)) = sum_mset (image_mset f (filter_mset P (mset zs)))" for zs
    by (metis mset_filter mset_map sum_mset_sum_list)
  then show ?thesis using a by simp
qed

lemma merged_sum:
  assumes m: "mset merged = mset (map row [0..<n])"
    and obs: "observations t = map merged_obs merged"
  shows "sum_list (map f (filter P (observations t)))
         = (sum_list (map (\<lambda>i. f (merged_obs (row i)))
              (filter (\<lambda>i. P (merged_obs (row i))) [0..<n])) :: int)"
proof -
  have "sum_list (map f (filter P (observations t)))
        = sum_list (map (f \<circ> merged_obs) (filter (P \<circ> merged_obs) merged))"
    unfolding obs by (simp add: filter_map)
  also have "\<dots> = sum_list (map (f \<circ> merged_obs) (filter (P \<circ> merged_obs) (map row [0..<n])))"
    by (rule sum_filter_mset [OF m])
  also have "\<dots> = sum_list (map (\<lambda>i. f (merged_obs (row i)))
              (filter (\<lambda>i. P (merged_obs (row i))) [0..<n]))"
    by (simp add: filter_map comp_def)
  finally show ?thesis .
qed

lemma site_cell_value:
  assumes "sr \<in> set (site_level t)" and dist: "distinct (map fst (dtypes t))"
    and col: "(c, Float64) \<in> set (dtypes t)"
  shows "site_value c sr
         = sum_list (map (num_value c)
             (filter (\<lambda>r. site_key r = Some (site_lat sr, site_long sr, site_bins sr))
                (observations t)))"
proof -
  from assms(1) obtain la lo b where
    sr: "sr = \<lparr>site_lat = la, site_long = lo, site_bins = b,
               site_cells = map (\<lambda>(c, dt). (c, custom_aggregate dt c
                 (filter (\<lambda>r. site_key r = Some (la, lo, b)) (observations t)))) (dtypes t)\<rparr>"
    unfolding site_level_def by auto
  show ?thesis
    unfolding sr site_value_def
    by (simp add: map_of_computed [OF dist col] custom_aggregate_def)
qed

lemma contribution_shape:
  assumes tr: "\<forall>l. total_name \<noteq> l # suffix"
    and dl: "distinct letters"
    and col: "col \<in> set (map (\<lambda>l. l # suffix) letters @ [total_name])"
  shows "map_of (map (\<lambda>l. (l # suffix, if retained key \<and> take 1 key = [l] then 1 else 0)) letters
                 @ [(total_name, if retained key then 1 else 0)]) col
         = Some (contribution suffix total_name key col)"
proof (cases "col = total_name")
  case True
  show ?thesis unfolding True contribution_def
    by (simp only: map_of_total_cell [OF tr]) simp
next
  case False
  with col obtain l where l: "l \<in> set letters" "col = l # suffix" by auto
  have ne: "key \<noteq> []" if "retained key" using that by (auto simp: retained_def)
  have eq: "(l # suffix = take 1 key @ suffix) = (take 1 key = [l])" if "key \<noteq> []"
    using that by (cases key) auto
  have "contribution suffix total_name key (l # suffix)
        = (if retained key \<and> take 1 key = [l] then 1 else 0)"
    using tr ne eq by (auto simp: contribution_def)
  then show ?thesis
    unfolding l(2) by (simp only: map_of_letter_cells [OF dl l(1)])
qed

lemma track_downstream:
  assumes track: "(suffix, total_name) = (''_y_sum'', ''y_haplos_sum'')
                \<or> (suffix, total_name) = (''_mt_sum'', ''mt_haplos_sum'')"
    and keys: "\<forall>key \<in> set series. key \<noteq> [] \<and> \<not> contains_str ''_sum'' key"
    and enc: "encode_track suffix total_name series = Inr encoded"
    and len: "length series = length ks"
    and cells: "\<forall>i < length ks. \<forall>col \<in> set (track_columns suffix total_name series).
                  map_of (C i) col = map_of (encoded ! i) col"
    and merged: "mset merged = mset (map (\<lambda>i. (ks ! i, C i)) [0..<length ks])"
    and obs: "observations t = map merged_obs merged"
    and dist: "distinct (map fst (dtypes t))"
    and floats: "\<forall>col \<in> set (track_columns suffix total_name series). (col, Float64) \<in> set (dtypes t)"
    and ct: "createTable object_sum parse t = Inr (nations, inds)"
  shows "(\<forall>br \<in> set nations. \<forall>col \<in> set (track_columns suffix total_name series).
            bin_value col br
            = sum_list (map (\<lambda>i. contribution suffix total_name (series ! i) col)
                (filter (\<lambda>i. key_bins (ks ! i) = Some (bin_bins br)) [0..<length ks])))
       \<and> (\<forall>sr \<in> set inds. \<forall>col \<in> set (track_columns suffix total_name series).
            site_value col sr
            = sum_list (map (\<lambda>i. contribution suffix total_name (series ! i) col)
                (filter (\<lambda>i. key_lat (ks ! i) = Some (site_lat sr)
                             \<and> key_long (ks ! i) = Some (site_long sr)
                             \<and> key_bins (ks ! i) = Some (site_bins sr)) [0..<length ks])))"
proof -
  let ?letters = "starting_letters (filter retained (dummy_columns series))"
  let ?cols = "track_columns suffix total_name series"
  let ?row = "\<lambda>i. (ks ! i, C i)"
  note tr = endswith_track [OF track]
  have shape: "encoded = map (\<lambda>key.
            map (\<lambda>l. (l # suffix, if retained key \<and> take 1 key = [l] then 1 else 0)) ?letters
            @ [(total_name, if retained key then 1 else 0)]) series"
    using enc unfolding encode_track_shape [OF keys tr(3) tr(4)] by simp
  have dl: "distinct ?letters" by (simp add: starting_letters_def)
  have val: "num_value col (merged_obs (?row i)) = contribution suffix total_name (series ! i) col"
    if i: "i < length ks" and col: "col \<in> set ?cols" for i col
  proof -
    have "map_of (C i) col = map_of (encoded ! i) col" using cells i col by blast
    also have "encoded ! i = map (\<lambda>l. (l # suffix,
                   if retained (series ! i) \<and> take 1 (series ! i) = [l] then 1 else 0)) ?letters
            @ [(total_name, if retained (series ! i) then 1 else 0)]"
      using i len by (simp add: shape)
    also have "map_of \<dots> col = Some (contribution suffix total_name (series ! i) col)"
      by (rule contribution_shape [OF tr(4) dl]) (use col in \<open>simp add: track_columns_def\<close>)
    finally show ?thesis by (simp add: num_value_def merged_obs_def)
  qed
  have sums: "sum_list (map (num_value col) (filter P (observations t)))
      = sum_list (map (\<lambda>i. contribution suffix total_name (series ! i) col)
          (filter (\<lambda>i. P (merged_obs (?row i))) [0..<length ks]))"
    if col: "col \<in> set ?cols" for col P
  proof -
    have "sum_list (map (num_value col) (filter P (observations t)))
      = sum_list (map (\<lambda>i. num_value col (merged_obs (?row i)))
          (filter (\<lambda>i. P (merged_obs (?row i))) [0..<length ks]))"
      by (rule merged_sum [OF merged obs])
    also have "\<dots> = sum_list (map (\<lambda>i. contribution suffix total_name (series ! i) col)
          (filter (\<lambda>i. P (merged_obs (?row i))) [0..<length ks]))"
      by (rule arg_cong [where f = sum_list], rule map_cong) (use col in \<open>auto simp: val\<close>)
    finally show ?thesis .
  qed
  have fl_site: "(col, Float64) \<in> set (dtypes t)" if "col \<in> set ?cols" for col
    using floats that by blast
  have fl_bin: "(col, Float64) \<in> set (agg_columns t)" if "col \<in> set ?cols" for col
  proof -
    have "endswith ''_sum'' col" using that tr(1,2) by (auto simp: track_columns_def)
    then show ?thesis using fl_site [OF that] by (simp add: agg_columns_def)
  qed
  have bin: "bin_value col br
            = sum_list (map (\<lambda>i. contribution suffix total_name (series ! i) col)
                (filter (\<lambda>i. key_bins (ks ! i) = Some (bin_bins br)) [0..<length ks]))"
    if br: "br \<in> set nations" and col: "col \<in> set ?cols" for br col
  proof -
    have "bin_value col br = sum_list (map (num_value col)
            (filter (\<lambda>r. combined_bins r = Some (bin_bins br)) (observations t)))"
      unfolding bin_value_def by (simp add: bin_cell_value [OF ct dist fl_bin [OF col] br])
    also have "\<dots> = sum_list (map (\<lambda>i. contribution suffix total_name (series ! i) col)
          (filter (\<lambda>i. combined_bins (merged_obs (?row i)) = Some (bin_bins br)) [0..<length ks]))"
      by (rule sums [OF col])
    finally show ?thesis by (simp add: merged_obs_def)
  qed
  have site: "site_value col sr
            = sum_list (map (\<lambda>i. contribution suffix total_name (series ! i) col)
                (filter (\<lambda>i. key_lat (ks ! i) = Some (site_lat sr)
                             \<and> key_long (ks ! i) = Some (site_long sr)
                             \<and> key_bins (ks ! i) = Some (site_bins sr)) [0..<length ks]))"
    if sr: "sr \<in> set inds" and col: "col \<in> set ?cols" for sr col
  proof -
    from sr createTable_Inr [OF ct] have s: "sr \<in> set (site_level t)" by simp
    have "site_value col sr = sum_list (map (num_value col)
            (filter (\<lambda>r. site_key r = Some (site_lat sr, site_long sr, site_bins sr)) (observations t)))"
      by (rule site_cell_value [OF s dist fl_site [OF col]])
    also have "\<dots> = sum_list (map (\<lambda>i. contribution suffix total_name (series ! i) col)
          (filter (\<lambda>i. site_key (merged_obs (?row i)) = Some (site_lat sr, site_long sr, site_bins sr))
             [0..<length ks]))"
      by (rule sums [OF col])
    finally show ?thesis by (simp add: merged_obs_def site_key_Some)
  qed
  show ?thesis using bin site by blast
qed

lemma encoded_as_contribution:
  assumes track: "(suffix, total_name) = (''_y_sum'', ''y_haplos_sum'')
                \<or> (suffix, total_name) = (''_mt_sum'', ''mt_haplos_sum'')"
    and keys: "\<forall>key \<in> set series. key \<noteq> [] \<and> \<not> contains_str ''_sum'' key"
  shows "encode_track suffix total_name series
         = Inr (map (\<lambda>key. map (\<lambda>col. (col, contribution suffix total_name key col))
                               (track_columns suffix total_name series)) series)"
proof -
  note tr = endswith_track [OF track]
  have c: "contribution suffix total_name key (l # suffix)
           = (if retained key \<and> take 1 key = [l] then 1 else 0)" for key l
  proof -
    have ne: "key \<noteq> []" if "retained key" using that by (auto simp: retained_def)
    have eq: "(l # suffix = take 1 key @ suffix) = (take 1 key = [l])" if "key \<noteq> []"
      using that by (cases key) auto
    show ?thesis using tr(4) ne eq by (auto simp: contribution_def)
  qed
  have t: "contribution suffix total_name key total_name = (if retained key then 1 else 0)" for key
    by (simp add: contribution_def)
  show ?thesis
    unfolding encode_track_shape [OF keys tr(3) tr(4)] track_columns_def
    by (simp add: c t comp_def)
qed

lemma track_names_apart:
  "col \<in> set (track_columns ''_mt_sum'' ''mt_haplos_sum'' ms)
   \<Longrightarrow> col \<notin> set (track_columns ''_y_sum'' ''y_haplos_sum'' ys)"
  by (auto simp: track_columns_def)

text \<open>
  C10 (as the code has it). Take the two key columns of a table, neither with an empty key
  nor with a key that contains \<open>_sum\<close>, and records whose merge keys
  \<open>(Master ID, CombinedBins, Lat., Long.)\<close> are pairwise different. Before aggregation,
  the \<open>get_dummies\<close> row of every record has exactly one non-zero cell, a 1 under the
  record's own key, and the encoded row of the record holds under every column of its
  track the record's contribution: 1 under the total and under the sum of its first
  letter when the key is retained (it does not start with \<open>n\<close> and its first character
  is a letter), 0 everywhere else. After the outer merge, in whatever order it lists its
  rows, every per-letter sum and every total of both aggregation levels is the sum of
  these contributions over the records of the group, each record taken once: a record
  adds at most one count to every downstream total.
\<close>

theorem record_counts_once:
  assumes ykeys: "\<forall>key \<in> set y_series. key \<noteq> [] \<and> \<not> contains_str ''_sum'' key"
    and mkeys: "\<forall>key \<in> set mt_series. key \<noteq> [] \<and> \<not> contains_str ''_sum'' key"
    and leny: "length y_series = length ks"
    and lenm: "length mt_series = length ks"
    and uniq: "distinct ks"
    and ency: "encode_track ''_y_sum'' ''y_haplos_sum'' y_series = Inr y_summed"
    and encm: "encode_track ''_mt_sum'' ''mt_haplos_sum'' mt_series = Inr mt_summed"
    and merged: "mset merged = mset (merge_outer (zip ks y_summed) (zip ks mt_summed))"
    and obs: "observations t = map merged_obs merged"
    and dist: "distinct (map fst (dtypes t))"
    and floats: "\<forall>col \<in> set (track_columns ''_y_sum'' ''y_haplos_sum'' y_series
                              @ track_columns ''_mt_sum'' ''mt_haplos_sum'' mt_series).
                   (col, Float64) \<in> set (dtypes t)"
    and ct: "createTable object_sum parse t = Inr (nations, inds)"
    and i: "i < length ks"
  shows "filter (\<lambda>(col, x). x \<noteq> 0) (get_dummies y_series ! i) = [(y_series ! i, 1)]
     \<and> filter (\<lambda>(col, x). x \<noteq> 0) (get_dummies mt_series ! i) = [(mt_series ! i, 1)]
     \<and> y_summed ! i = map (\<lambda>col. (col, contribution ''_y_sum'' ''y_haplos_sum'' (y_series ! i) col))
                        (track_columns ''_y_sum'' ''y_haplos_sum'' y_series)
     \<and> mt_summed ! i = map (\<lambda>col. (col, contribution ''_mt_sum'' ''mt_haplos_sum'' (mt_series ! i) col))
                         (track_columns ''_mt_sum'' ''mt_haplos_sum'' mt_series)
     \<and> (\<forall>br \<in> set nations.
          (\<forall>col \<in> set (track_columns ''_y_sum'' ''y_haplos_sum'' y_series).
             bin_value col br
             = sum_list (map (\<lambda>j. contribution ''_y_sum'' ''y_haplos_sum'' (y_series ! j) col)
                 (filter (\<lambda>j. key_bins (ks ! j) = Some (bin_bins br)) [0..<length ks])))
        \<and> (\<forall>col \<in> set (track_columns ''_mt_sum'' ''mt_haplos_sum'' mt_series).
             bin_value col br
             = sum_list (map (\<lambda>j. contribution ''_mt_sum'' ''mt_haplos_sum'' (mt_series ! j) col)
                 (filter (\<lambda>j. key_bins (ks ! j) = Some (bin_bins br)) [0..<length ks]))))
     \<and> (\<forall>sr \<in> set inds.
          (\<forall>col \<in> set (track_columns ''_y_sum'' ''y_haplos_sum'' y_series).
             site_value col sr
             = sum_list (map (\<lambda>j. contribution ''_y_sum'' ''y_haplos_sum'' (y_series ! j) col)
                 (filter (\<lambda>j. key_lat (ks ! j) = Some (site_lat sr)
                              \<and> key_long (ks ! j) = Some (site_long sr)
                              \<and> key_bins (ks ! j) = Some (site_bins sr)) [0..<length ks])))
        \<and> (\<forall>col \<in> set (track_columns ''_mt_sum'' ''mt_haplos_sum'' mt_series).
             site_value col sr
             = sum_list (map (\<lambda>j. contribution ''_mt_sum'' ''mt_haplos_sum'' (mt_series ! j) col)
                 (filter (\<lambda>j. key_lat (ks ! j) = Some (site_lat sr)
                              \<and> key_long (ks ! j) = Some (site_long sr)
                              \<and> key_bins (ks ! j) = Some (site_bins sr)) [0..<length ks]))))"
proof -
  have ty: "(''_y_sum'', ''y_haplos_sum'') = (''_y_sum'', ''y_haplos_sum'')
          \<or> (''_y_sum'', ''y_haplos_sum'') = (''_mt_sum'', ''mt_haplos_sum'')" by simp
  have tm: "(''_mt_sum'', ''mt_haplos_sum'') = (''_y_sum'', ''y_haplos_sum'')
          \<or> (''_mt_sum'', ''mt_haplos_sum'') = (''_mt_sum'', ''mt_haplos_sum'')" by simp
  let ?ycols = "track_columns ''_y_sum'' ''y_haplos_sum'' y_series"
  let ?mcols = "track_columns ''_mt_sum'' ''mt_haplos_sum'' mt_series"
  have ys: "y_summed = map (\<lambda>key. map (\<lambda>col. (col, contribution ''_y_sum'' ''y_haplos_sum'' key col))
                               ?ycols) y_series"
    using ency unfolding encoded_as_contribution [OF ty ykeys] by simp
  have ms: "mt_summed = map (\<lambda>key. map (\<lambda>col. (col, contribution ''_mt_sum'' ''mt_haplos_sum'' key col))
                               ?mcols) mt_series"
    using encm unfolding encoded_as_contribution [OF tm mkeys] by simp
  have ly: "length y_summed = length ks" using ys leny by simp
  have lm: "length mt_summed = length ks" using ms lenm by simp
  have iy: "i < length y_series" and im: "i < length mt_series" using i leny lenm by simp_all
  have one_y: "filter (\<lambda>(col, x). x \<noteq> 0) (get_dummies y_series ! i) = [(y_series ! i, 1)]"
    using iy by (simp add: get_dummies_def dummy_row_nonzero dummy_columns_set)
  have one_m: "filter (\<lambda>(col, x). x \<noteq> 0) (get_dummies mt_series ! i) = [(mt_series ! i, 1)]"
    using im by (simp add: get_dummies_def dummy_row_nonzero dummy_columns_set)
  have row_y: "y_summed ! i = map (\<lambda>col. (col, contribution ''_y_sum'' ''y_haplos_sum'' (y_series ! i) col)) ?ycols"
    using iy by (simp add: ys)
  have row_m: "mt_summed ! i = map (\<lambda>col. (col, contribution ''_mt_sum'' ''mt_haplos_sum'' (mt_series ! i) col)) ?mcols"
    using im by (simp add: ms)
  have names_y: "fst ` set (y_summed ! j) = set ?ycols" if "j < length ks" for j
    using that leny by (force simp: ys)
  have merged': "mset merged = mset (map (\<lambda>j. (ks ! j, y_summed ! j @ mt_summed ! j)) [0..<length ks])"
    using merged unfolding merge_outer_unique [OF uniq ly lm] .
  have cy: "\<forall>j < length ks. \<forall>col \<in> set ?ycols.
              map_of (y_summed ! j @ mt_summed ! j) col = map_of (y_summed ! j) col"
  proof (intro allI impI ballI)
    fix j col assume j: "j < length ks" and col: "col \<in> set ?ycols"
    then have "col \<in> fst ` set (y_summed ! j)" using names_y by simp
    then obtain v where "map_of (y_summed ! j) col = Some v"
      by (metis domD dom_map_of_conv_image_fst)
    then show "map_of (y_summed ! j @ mt_summed ! j) col = map_of (y_summed ! j) col"
      by (simp add: map_add_def)
  qed
  have cm: "\<forall>j < length ks. \<forall>col \<in> set ?mcols.
              map_of (y_summed ! j @ mt_summed ! j) col = map_of (mt_summed ! j) col"
  proof (intro allI impI ballI)
    fix j col assume j: "j < length ks" and col: "col \<in> set ?mcols"
    then have "col \<notin> fst ` set (y_summed ! j)" using names_y track_names_apart by blast
    then have "map_of (y_summed ! j) col = None"
      by (simp add: map_of_eq_None_iff)
    then show "map_of (y_summed ! j @ mt_summed ! j) col = map_of (mt_summed ! j) col"
      by (simp add: map_add_def)
  qed
  have fy: "\<forall>col \<in> set ?ycols. (col, Float64) \<in> set (dtypes t)" using floats by simp
  have fm: "\<forall>col \<in> set ?mcols. (col, Float64) \<in> set (dtypes t)" using floats by simp
  note dy = track_downstream [OF ty ykeys ency leny cy merged' obs dist fy ct]
  note dm = track_downstream [OF tm mkeys encm lenm cm merged' obs dist fm ct]
  show ?thesis using one_y one_m row_y row_m dy dm by blast
qed

theorem record_counts_once_witness:
  "bin_value ''y_haplos_sum''
     \<lparr>bin_bins = ''Sweden (0-49999BP)'',
      bin_cells = [(''I_y_sum'', Num 1), (''R_y_sum'', Num 1), (''y_haplos_sum'', Num 2),
                   (''H_mt_sum'', Num 3), (''mt_haplos_sum'', Num 3)]\<rparr>
   = sum_list (map (\<lambda>j. contribution ''_y_sum'' ''y_haplos_sum'' ([''R'', ''I'', ''n/a''] ! j)
                          ''y_haplos_sum'')
       (filter (\<lambda>j. key_bins (sweden_keys ! j) = Some ''Sweden (0-49999BP)'')
          [0..<length sweden_keys]))"
proof -
  let ?ys = "[[(''I_y_sum'', 0), (''R_y_sum'', 1), (''y_haplos_sum'', 1)],
              [(''I_y_sum'', 1), (''R_y_sum'', 0), (''y_haplos_sum'', 1)],
              [(''I_y_sum'', 0), (''R_y_sum'', 0), (''y_haplos_sum'', 0::int)]]"
  let ?ms = "[[(''H_mt_sum'', 1), (''mt_haplos_sum'', 1)],
              [(''H_mt_sum'', 1), (''mt_haplos_sum'', 1)],
              [(''H_mt_sum'', 1), (''mt_haplos_sum'', 1::int)]]"
  let ?merged = "merge_outer (zip sweden_keys ?ys) (zip sweden_keys ?ms)"
  let ?t = "\<lparr>dtypes = [(''Master ID'', Object), (''I_y_sum'', Float64), (''R_y_sum'', Float64),
                       (''y_haplos_sum'', Float64), (''H_mt_sum'', Float64),
                       (''mt_haplos_sum'', Float64)],
             observations = map merged_obs ?merged\<rparr>"
  let ?br = "\<lparr>bin_bins = ''Sweden (0-49999BP)'',
      bin_cells = [(''I_y_sum'', Num 1), (''R_y_sum'', Num 1), (''y_haplos_sum'', Num 2),
                   (''H_mt_sum'', Num 3), (''mt_haplos_sum'', Num 3)]\<rparr>"
  have ykeys: "\<forall>key \<in> set [''R'', ''I'', ''n/a'']. key \<noteq> [] \<and> \<not> contains_str ''_sum'' key"
    by (simp add: startswith_def)
  have mkeys: "\<forall>key \<in> set [''H'', ''H'', ''H'']. key \<noteq> [] \<and> \<not> contains_str ''_sum'' key"
    by (simp add: startswith_def)
  have leny: "length [''R'', ''I'', ''n/a''] = length sweden_keys"
    and lenm: "length [''H'', ''H'', ''H''] = length sweden_keys"
    and uniq: "distinct sweden_keys"
    and i: "0 < length sweden_keys"
    by (simp_all add: sweden_keys_def)
  have ency: "encode_track ''_y_sum'' ''y_haplos_sum'' [''R'', ''I'', ''n/a''] = Inr ?ys"
    by code_simp
  have encm: "encode_track ''_mt_sum'' ''mt_haplos_sum'' [''H'', ''H'', ''H''] = Inr ?ms"
    by code_simp
  have merged: "mset ?merged = mset (merge_outer (zip sweden_keys ?ys) (zip sweden_keys ?ms))"
    by simp
  have obs: "observations ?t = map merged_obs ?merged" by simp
  have dist: "distinct (map fst (dtypes ?t))" by simp
  have ycols: "track_columns ''_y_sum'' ''y_haplos_sum'' [''R'', ''I'', ''n/a'']
               = [''I_y_sum'', ''R_y_sum'', ''y_haplos_sum'']"
    by code_simp
  have mcols: "track_columns ''_mt_sum'' ''mt_haplos_sum'' [''H'', ''H'', ''H'']
               = [''H_mt_sum'', ''mt_haplos_sum'']"
    by code_simp
  have floats: "\<forall>col \<in> set (track_columns ''_y_sum'' ''y_haplos_sum'' [''R'', ''I'', ''n/a'']
                              @ track_columns ''_mt_sum'' ''mt_haplos_sum'' [''H'', ''H'', ''H'']).
                   (col, Float64) \<in> set (dtypes ?t)"
    unfolding ycols mcols by simp
  have ct: "createTable concat_strings parse_decimal ?t
            = Inr ([?br],
                [\<lparr>site_lat = 10, site_long = 20, site_bins = ''Sweden (0-49999BP)'',
                  site_cells = [(''Master ID'', Str ''I1''), (''I_y_sum'', Num 1),
                     (''R_y_sum'', Num 1), (''y_haplos_sum'', Num 2),
                     (''H_mt_sum'', Num 2), (''mt_haplos_sum'', Num 2)]\<rparr>,
                 \<lparr>site_lat = 11, site_long = 20, site_bins = ''Sweden (0-49999BP)'',
                  site_cells = [(''Master ID'', Str ''I3''), (''I_y_sum'', Num 0),
                     (''R_y_sum'', Num 0), (''y_haplos_sum'', Num 0),
                     (''H_mt_sum'', Num 1), (''mt_haplos_sum'', Num 1)]\<rparr>])"
    by code_simp
  from record_counts_once [OF ykeys mkeys leny lenm uniq ency encm merged obs dist floats ct i]
  have "\<forall>br \<in> set [?br].
          \<forall>col \<in> set (track_columns ''_y_sum'' ''y_haplos_sum'' [''R'', ''I'', ''n/a'']).
             bin_value col br
             = sum_list (map (\<lambda>j. contribution ''_y_sum'' ''y_haplos_sum'' ([''R'', ''I'', ''n/a''] ! j) col)
                 (filter (\<lambda>j. key_bins (sweden_keys ! j) = Some (bin_bins br))
                    [0..<length sweden_keys]))"
    by blast
  then show ?thesis unfolding ycols by simp
qed

text \<open>
  C10 as the specification states it fails. \<open>filter(like='_sum')\<close> selects by name, so a
  retained key that contains \<open>_sum\<close> is summed into the total with its letter sum
  (total 2). A batch with an empty key has no encoded rows: \<open>col[0]\<close> raises. And an
  individual that the table lists twice under one merge key is paired by the outer merge
  with both of its rows on the other track: two records, each with total 1, give four
  merged rows and the downstream totals 4.
\<close>

theorem total_two_counterexample:
  "encode_track ''_y_sum'' ''y_haplos_sum'' [''R_sum''] =
     Inr [[(''R_sum'', 1), (''R_y_sum'', 1), (''y_haplos_sum'', 2)]]
   \<and> retained ''R_sum''
   \<and> encode_track ''_y_sum'' ''y_haplos_sum'' [''R'', ''''] = Inl IndexError
   \<and> encode_track ''_y_sum'' ''y_haplos_sum'' [''R'', ''R'']
     = Inr [[(''R_y_sum'', 1), (''y_haplos_sum'', 1)], [(''R_y_sum'', 1), (''y_haplos_sum'', 1)]]
   \<and> encode_track ''_mt_sum'' ''mt_haplos_sum'' [''H'', ''H'']
     = Inr [[(''H_mt_sum'', 1), (''mt_haplos_sum'', 1)], [(''H_mt_sum'', 1), (''mt_haplos_sum'', 1)]]
   \<and> createTable concat_strings parse_decimal
        \<lparr>dtypes = [(''Master ID'', Object), (''R_y_sum'', Float64), (''y_haplos_sum'', Float64),
                   (''H_mt_sum'', Float64), (''mt_haplos_sum'', Float64)],
         observations = map merged_obs
           (merge_outer
              (zip repeated_keys
                 [[(''R_y_sum'', 1), (''y_haplos_sum'', 1)], [(''R_y_sum'', 1), (''y_haplos_sum'', 1)]])
              (zip repeated_keys
                 [[(''H_mt_sum'', 1), (''mt_haplos_sum'', 1)], [(''H_mt_sum'', 1), (''mt_haplos_sum'', 1)]]))\<rparr>
     = Inr ([\<lparr>bin_bins = ''Sweden (0-49999BP)'',
              bin_cells = [(''R_y_sum'', Num 4), (''y_haplos_sum'', Num 4),
                           (''H_mt_sum'', Num 4), (''mt_haplos_sum'', Num 4)]\<rparr>],
            [\<lparr>site_lat = 10, site_long = 20, site_bins = ''Sweden (0-49999BP)'',
              site_cells = [(''Master ID'', Str ''I1''), (''R_y_sum'', Num 4),
                            (''y_haplos_sum'', Num 4), (''H_mt_sum'', Num 4),
                            (''mt_haplos_sum'', Num 4)]\<rparr>])"
  by code_simp


end
